theory Spec2Isabelle
  imports Complex_Main "HOL-Library.Word" "HOL-Library.Multiset"
begin


section \<open>Module constants\<close>

text \<open>
  \<^verbatim>\<open>IMG_SIZE = 224\<close>, \<^verbatim>\<open>BATCH_SIZE = 32\<close>, \<^verbatim>\<open>NUM_CLASSES = 40\<close>
  (trainv1_MobileNetV2.py, lines 29-31).
\<close>

definition IMG_SIZE :: nat where
  "IMG_SIZE = 224"

definition BATCH_SIZE :: nat where
  "BATCH_SIZE = 32"

definition NUM_CLASSES :: nat where
  "NUM_CLASSES = 40"

section \<open>Errors and diagnostics\<close>

text \<open>
  The exceptions the script can raise, as values. \<open>FileNotFoundError\<close>: \<^verbatim>\<open>open\<close> on a
  missing manifest. \<open>ValueError\<close>: a failed tuple unpacking or a failed \<^verbatim>\<open>int(label)\<close>.
  \<open>InvalidArgumentError\<close>: \<^verbatim>\<open>tf.debugging.assert_equal\<close>. \<open>IndexError\<close>: a list index out
  of range. \<open>TypeError\<close>: a generated element that does not fit the output signature of
  the dataset.
\<close>

datatype error =
  FileNotFoundError | ValueError | InvalidArgumentError | IndexError | TypeError

text \<open>
  Every \<^verbatim>\<open>print\<close> of the script is a message of the log, in the order printed. The
  argument is the value interpolated into the message.
\<close>

datatype log_msg =
    LoadedSamples nat
  | WarnCannotRead string
  | WarnNaN string
  | AugmentFailed string
  | TFLiteSaved string

section \<open>Python string primitives\<close>

text \<open>
  Strings are lists of characters and the model covers ASCII text. \<open>is_space\<close> is
  Python's \<^verbatim>\<open>str.isspace\<close> on ASCII: tab, line feed, vertical tab, form feed, carriage
  return, the four separators 0x1C-0x1F and the blank.
\<close>

definition is_space :: "char \<Rightarrow> bool" where
  "is_space c = (c \<in> set [CHR 0x09, CHR 0x0A, CHR 0x0B, CHR 0x0C, CHR 0x0D,
                            CHR 0x1C, CHR 0x1D, CHR 0x1E, CHR 0x1F, CHR 0x20])"

text \<open>\<^verbatim>\<open>s.strip()\<close>: whitespace removed at both ends.\<close>

definition py_strip :: "string \<Rightarrow> string" where
  "py_strip s = rev (dropWhile is_space (rev (dropWhile is_space s)))"

text \<open>
  \<^verbatim>\<open>s.lstrip(chars)\<close>: Python removes leading characters for as long as they belong to
  the \<^emph>\<open>set\<close> of characters \<open>chars\<close>; the argument is not a prefix.
\<close>

definition py_lstrip :: "string \<Rightarrow> string \<Rightarrow> string" where
  "py_lstrip chars s = dropWhile (\<lambda>c. c \<in> set chars) s"

text \<open>
  \<^verbatim>\<open>s.split()\<close> with no separator: the maximal runs of non-whitespace characters, in
  order. \<open>split_ws cur s\<close> scans \<open>s\<close> with the token being read held reversed in \<open>cur\<close>.
\<close>

fun split_ws :: "string \<Rightarrow> string \<Rightarrow> string list" where
  "split_ws cur [] = (if cur = [] then [] else [rev cur])"
| "split_ws cur (c # cs) =
     (if is_space c
      then (if cur = [] then split_ws [] cs else rev cur # split_ws [] cs)
      else split_ws (c # cur) cs)"

definition py_split :: "string \<Rightarrow> string list" where
  "py_split s = split_ws [] s"

text \<open>
  \<^verbatim>\<open>int(s)\<close> in base 10: surrounding whitespace is ignored, then an optional sign, then
  decimal digits in which single underscores may separate digits. Anything else raises
  \<^verbatim>\<open>ValueError\<close> (\<open>None\<close>). Python integers are unbounded; the cap that recent Python
  versions put on the number of digits of a literal (4300 by default) is not modelled.
\<close>

definition digit_val :: "char \<Rightarrow> nat option" where
  "digit_val c =
     (if c \<in> set ''0123456789'' then Some (of_char c - (48::nat)) else None)"

fun parse_digits :: "nat \<Rightarrow> bool \<Rightarrow> string \<Rightarrow> nat option" where
  "parse_digits acc after_digit [] = (if after_digit then Some acc else None)"
| "parse_digits acc after_digit (c # cs) =
     (if c = CHR ''_''
      then (if after_digit then parse_digits acc False cs else None)
      else (case digit_val c of
              None \<Rightarrow> None
            | Some d \<Rightarrow> parse_digits (10 * acc + d) True cs))"

definition py_int :: "string \<Rightarrow> int option" where
  "py_int s =
     (case py_strip s of
        [] \<Rightarrow> None
      | c # cs \<Rightarrow>
          if c = CHR ''-'' then map_option (\<lambda>n. - int n) (parse_digits 0 False cs)
          else if c = CHR ''+'' then map_option int (parse_digits 0 False cs)
          else map_option int (parse_digits 0 False (c # cs)))"

text \<open>
  \<^verbatim>\<open>os.path.join(a, b)\<close> on POSIX: an absolute \<open>b\<close> replaces \<open>a\<close>; otherwise the two
  are joined with one slash unless \<open>a\<close> is empty or already ends with one.
\<close>

definition os_path_join :: "string \<Rightarrow> string \<Rightarrow> string" where
  "os_path_join a b =
     (if b \<noteq> [] \<and> hd b = CHR ''/'' then b
      else if a = [] \<or> last a = CHR ''/'' then a @ b
      else a @ ''/'' @ b)"

section \<open>Reading the manifest\<close>

text \<open>
  A text file opened with \<^verbatim>\<open>open(path, 'r')\<close> is read with universal newlines:
  \<^verbatim>\<open>\r\n\<close> and a lone \<^verbatim>\<open>\r\<close> become \<^verbatim>\<open>\n\<close>. Iterating the file yields its lines,
  each with its terminating line feed, and a last line without one when the file does
  not end with a line feed.
\<close>

fun translate_newlines :: "string \<Rightarrow> string" where
  "translate_newlines [] = []"
| "translate_newlines [c] = (if c = CHR 0x0D then [CHR 0x0A] else [c])"
| "translate_newlines (c # d # cs) =
     (if c = CHR 0x0D \<and> d = CHR 0x0A then CHR 0x0A # translate_newlines cs
      else if c = CHR 0x0D then CHR 0x0A # translate_newlines (d # cs)
      else c # translate_newlines (d # cs))"

fun lines_of :: "string \<Rightarrow> string \<Rightarrow> string list" where
  "lines_of cur [] = (if cur = [] then [] else [rev cur])"
| "lines_of cur (c # cs) =
     (if c = CHR 0x0A then rev (c # cur) # lines_of [] cs else lines_of (c # cur) cs)"

definition file_lines :: "string \<Rightarrow> string list" where
  "file_lines content = lines_of [] (translate_newlines content)"

text \<open>
  A sample is \<^verbatim>\<open>(img_path, label)\<close>. The object built by \<^verbatim>\<open>GarbageDataset.__init__\<close>
  holds the root directory, the mode flag, the sample list \<^verbatim>\<open>self.data\<close> and
  \<^verbatim>\<open>self.num_samples\<close>.
\<close>

type_synonym sample = "string \<times> int"

record dataset =
  root_dir :: string
  is_training :: bool
  data :: "sample list"
  num_samples :: nat

text \<open>
  The body of the loop \<^verbatim>\<open>for line in f\<close> (lines 41-44), on one line:
  \<^verbatim>\<open>img_path, label = line.strip().split()\<close> raises \<^verbatim>\<open>ValueError\<close> unless the line has
  exactly two tokens; then \<^verbatim>\<open>img_path.lstrip('./')\<close> and \<^verbatim>\<open>int(label)\<close>.
\<close>

definition parse_line :: "string \<Rightarrow> error + sample" where
  "parse_line line =
     (case py_split (py_strip line) of
        [img_path, label] \<Rightarrow>
          (let img_path' = py_lstrip ''./'' img_path
           in case py_int label of
                None \<Rightarrow> Inl ValueError
              | Some n \<Rightarrow> Inr (img_path', n))
      | _ \<Rightarrow> Inl ValueError)"

text \<open>
  The loop itself: \<open>acc\<close> is \<^verbatim>\<open>self.data\<close> so far; the first line that raises ends the
  loop and the exception leaves \<^verbatim>\<open>__init__\<close>.
\<close>

fun load_lines :: "string list \<Rightarrow> sample list \<Rightarrow> error + sample list" where
  "load_lines [] acc = Inr acc"
| "load_lines (line # rest) acc =
     (case parse_line line of
        Inl e \<Rightarrow> Inl e
      | Inr s \<Rightarrow> load_lines rest (acc @ [s]))"

text \<open>
  \<^verbatim>\<open>GarbageDataset.__init__(root_dir, txt_file, is_training)\<close>. The file system is a map
  from paths to file contents. The result is the log and either the exception raised
  (no object is constructed) or the object.
\<close>

definition GarbageDataset_init ::
  "(string \<rightharpoonup> string) \<Rightarrow> string \<Rightarrow> string \<Rightarrow> bool \<Rightarrow> log_msg list \<times> (error + dataset)" where
  "GarbageDataset_init fs rootdir txt_file training =
     (case fs (os_path_join rootdir txt_file) of
        None \<Rightarrow> ([], Inl FileNotFoundError)
      | Some content \<Rightarrow>
          (case load_lines (file_lines content) [] of
             Inl e \<Rightarrow> ([], Inl e)
           | Inr samples \<Rightarrow>
               ([LoadedSamples (length samples)],
                Inr \<lparr>root_dir = rootdir, is_training = training,
                     data = samples, num_samples = length samples\<rparr>)))"

section \<open>Well-formed manifest lines\<close>

text \<open>
  A manifest line is well formed when it consists of exactly two whitespace-separated
  tokens and the second is an integer literal: an optional sign, then decimal digits,
  where single underscores may stand between digits. These predicates describe the
  manifest format on its own terms; they are related to the parser by the lemmas below.
\<close>

definition is_digit :: "char \<Rightarrow> bool" where
  "is_digit c = (c \<in> set ''0123456789'')"

fun no_double_underscore :: "string \<Rightarrow> bool" where
  "no_double_underscore [] = True"
| "no_double_underscore [c] = True"
| "no_double_underscore (c # d # cs) =
     (\<not> (c = CHR ''_'' \<and> d = CHR ''_'') \<and> no_double_underscore (d # cs))"

definition digits_body :: "string \<Rightarrow> bool" where
  "digits_body b =
     (b \<noteq> [] \<and> is_digit (hd b) \<and> is_digit (last b)
      \<and> list_all (\<lambda>c. is_digit c \<or> c = CHR ''_'') b \<and> no_double_underscore b)"

definition is_int_token :: "string \<Rightarrow> bool" where
  "is_int_token t =
     (case t of
        [] \<Rightarrow> False
      | c # cs \<Rightarrow> if c = CHR ''-'' \<or> c = CHR ''+'' then digits_body cs else digits_body t)"

definition well_formed_line :: "string \<Rightarrow> bool" where
  "well_formed_line line =
     (case py_split line of [p, l] \<Rightarrow> is_int_token l | _ \<Rightarrow> False)"

text \<open>
  The integer written in the label token of a line (\<open>None\<close> when the line does not have
  exactly two tokens or the token is not an integer), and the label domain
  \<open>[0, NUM_CLASSES)\<close> of the data model.
\<close>

definition label_value :: "string \<Rightarrow> int option" where
  "label_value line = (case py_split line of [p, l] \<Rightarrow> py_int l | _ \<Rightarrow> None)"

definition in_label_domain :: "int \<Rightarrow> bool" where
  "in_label_domain l = (0 \<le> l \<and> l < int NUM_CLASSES)"

text \<open>
  Removing one leading occurrence of a prefix, when present: what "strip a leading
  \<^verbatim>\<open>./\<close>" asks for. It is compared below with what \<^verbatim>\<open>lstrip('./')\<close> does.
\<close>

definition remove_prefix_once :: "string \<Rightarrow> string \<Rightarrow> string" where
  "remove_prefix_once pre s = (if take (length pre) s = pre then drop (length pre) s else s)"

section \<open>Example manifests\<close>

text \<open>
  \<open>scenario_manifest\<close> is the two-line manifest \<^verbatim>\<open>a.jpg 3\nb.jpg 0\n\<close>. The second line
  of \<open>broken_manifest\<close> has a single token. \<open>repeating_manifest\<close> lists the same sample
  twice.
\<close>

definition scenario_manifest :: string where
  "scenario_manifest = ''a.jpg 3'' @ [CHR 0x0A] @ ''b.jpg 0'' @ [CHR 0x0A]"

definition broken_manifest :: string where
  "broken_manifest = ''a.jpg 3'' @ [CHR 0x0A] @ ''b.jpg'' @ [CHR 0x0A] @ ''c.jpg 1'' @ [CHR 0x0A]"

definition repeating_manifest :: string where
  "repeating_manifest =
     ''x.jpg 1'' @ [CHR 0x0A] @ ''./y.jpg 2'' @ [CHR 0x0A] @ ''x.jpg 1'' @ [CHR 0x0A]"

section \<open>Tensors and images\<close>

text \<open>
  A float32 value is \<open>NaN\<close> or a finite value, modelled as a real number: rounding and
  infinities are not modelled. The properties below (a value is zero, a value lies in
  \<open>[0, 1]\<close>) do not depend on the rounding: float32 rounding is monotone and 0 and 1 are
  float32 values. A rank-3 tensor of shape \<open>(h, w, c)\<close> is a list of \<open>h\<close> rows of \<open>w\<close> pixels
  of \<open>c\<close> channel values; \<open>has_shape\<close> says that the nested lists are rectangular of that
  shape. A decoded image is a tensor of bytes.
\<close>

datatype f32 = NaN | Val real

type_synonym 'a tensor3 = "'a list list list"
type_synonym image = "f32 tensor3"
type_synonym u8image = "8 word tensor3"

definition has_shape :: "'a tensor3 \<Rightarrow> nat \<Rightarrow> nat \<Rightarrow> nat \<Rightarrow> bool" where
  "has_shape t h w c =
     (length t = h \<and> list_all (\<lambda>row. length row = w \<and> list_all (\<lambda>px. length px = c) row) t)"

definition all3 :: "('a \<Rightarrow> bool) \<Rightarrow> 'a tensor3 \<Rightarrow> bool" where
  "all3 P t = list_all (list_all (list_all P)) t"

definition map3 :: "('a \<Rightarrow> 'b) \<Rightarrow> 'a tensor3 \<Rightarrow> 'b tensor3" where
  "map3 f t = map (map (map f)) t"

definition zeros :: "nat \<Rightarrow> nat \<Rightarrow> nat \<Rightarrow> image" where
  "zeros h w c = replicate h (replicate w (replicate c (Val 0)))"

subsection \<open>OpenCV\<close>

text \<open>
  \<^verbatim>\<open>cv2.imread\<close> and \<^verbatim>\<open>cv2.resize\<close> are library functions whose code is not part of the
  script; they are parameters of the model. \<open>imread lib p\<close> is \<open>None\<close> when the file is
  missing or cannot be decoded (\<^verbatim>\<open>cv2.imread\<close> returns \<^verbatim>\<open>None\<close> and raises nothing).
  \<open>resize lib img (dw, dh)\<close> is \<^verbatim>\<open>cv2.resize(img, (dw, dh))\<close>. \<open>cv2_contract\<close> states what
  their documentation promises: a decoded image is a non-empty \<open>h \<times> w \<times> 3\<close> array (the
  default read mode is 3-channel colour), and resizing a non-empty image to
  \<open>(dw, dh)\<close> gives a \<open>dh \<times> dw\<close> image with the same channels.
\<close>

record cv2 =
  imread :: "string \<Rightarrow> u8image option"
  resize :: "u8image \<Rightarrow> nat \<times> nat \<Rightarrow> u8image"

definition cv2_contract :: "cv2 \<Rightarrow> bool" where
  "cv2_contract lib =
     ((\<forall>p im. imread lib p = Some im \<longrightarrow> (\<exists>h w. 0 < h \<and> 0 < w \<and> has_shape im h w 3))
      \<and> (\<forall>im h w c dw dh. has_shape im h w c \<and> 0 < h \<and> 0 < w \<and> 0 < dw \<and> 0 < dh
            \<longrightarrow> has_shape (resize lib im (dw, dh)) dh dw c))"

text \<open>
  \<^verbatim>\<open>cv2.cvtColor(img, cv2.COLOR_BGR2RGB)\<close> reverses the three channels of every pixel;
  \<^verbatim>\<open>img.astype(np.float32) / 255.0\<close> maps a byte \<open>b\<close> to \<open>b / 255\<close>.
\<close>

definition cvtColor_BGR2RGB :: "u8image \<Rightarrow> u8image" where
  "cvtColor_BGR2RGB img = map (map rev) img"

definition astype_float32_div255 :: "u8image \<Rightarrow> image" where
  "astype_float32_div255 img = map3 (\<lambda>b. Val (real (unat b) / 255)) img"

subsection \<open>TensorFlow operations\<close>

text \<open>
  \<^verbatim>\<open>tf.reduce_any(tf.math.is_nan(img))\<close>; addition, minimum and maximum of float32 values
  (a \<open>NaN\<close> operand gives \<open>NaN\<close>).
\<close>

definition is_nan :: "f32 \<Rightarrow> bool" where
  "is_nan v = (case v of NaN \<Rightarrow> True | Val r \<Rightarrow> False)"

definition reduce_any_is_nan :: "image \<Rightarrow> bool" where
  "reduce_any_is_nan img = list_ex (list_ex (list_ex is_nan)) img"

definition f32_add :: "f32 \<Rightarrow> f32 \<Rightarrow> f32" where
  "f32_add a b = (case (a, b) of (Val x, Val y) \<Rightarrow> Val (x + y) | _ \<Rightarrow> NaN)"

definition f32_minimum :: "f32 \<Rightarrow> f32 \<Rightarrow> f32" where
  "f32_minimum a b = (case (a, b) of (Val x, Val y) \<Rightarrow> Val (min x y) | _ \<Rightarrow> NaN)"

definition f32_maximum :: "f32 \<Rightarrow> f32 \<Rightarrow> f32" where
  "f32_maximum a b = (case (a, b) of (Val x, Val y) \<Rightarrow> Val (max x y) | _ \<Rightarrow> NaN)"

text \<open>
  The random draws of one call of the augmentation, made explicit: whether
  \<^verbatim>\<open>random_flip_left_right\<close> and \<^verbatim>\<open>random_flip_up_down\<close> flip (each compares a uniform
  draw with 0.5), the integer \<open>k\<close> drawn for the rotation, and the brightness \<open>delta\<close>
  that \<^verbatim>\<open>random_brightness\<close> draws from \<open>[-0.2, 0.2)\<close>.
\<close>

record draws =
  flip_lr :: bool
  flip_ud :: bool
  rot_k :: nat
  delta :: real

text \<open>
  A left-right flip reverses every row (axis 1), an up-down flip reverses the list of
  rows (axis 0). \<^verbatim>\<open>tf.image.rot90(img, k)\<close> reduces \<open>k\<close> modulo 4 and rotates
  counter-clockwise: once is the transpose of the left-right flip, twice is both flips,
  three times is the left-right flip of the transpose. \<^verbatim>\<open>random_brightness\<close> adds
  \<open>delta\<close> to every value (\<^verbatim>\<open>adjust_brightness\<close> does not clip a float image), and
  \<^verbatim>\<open>tf.clip_by_value(img, lo, hi)\<close> is \<open>max (min v hi) lo\<close> on every value.
\<close>

definition random_flip_left_right :: "bool \<Rightarrow> image \<Rightarrow> image" where
  "random_flip_left_right flip img = (if flip then map rev img else img)"

definition random_flip_up_down :: "bool \<Rightarrow> image \<Rightarrow> image" where
  "random_flip_up_down flip img = (if flip then rev img else img)"

definition rot90 :: "image \<Rightarrow> nat \<Rightarrow> image" where
  "rot90 img k =
     (let k' = k mod 4 in
      if k' = 1 then transpose (map rev img)
      else if k' = 2 then rev (map rev img)
      else if k' = 3 then map rev (transpose img)
      else img)"

definition adjust_brightness :: "image \<Rightarrow> real \<Rightarrow> image" where
  "adjust_brightness img dl = map3 (\<lambda>v. f32_add v (Val dl)) img"

definition clip_by_value :: "image \<Rightarrow> real \<Rightarrow> real \<Rightarrow> image" where
  "clip_by_value img lo hi = map3 (\<lambda>v. f32_maximum (f32_minimum v (Val hi)) (Val lo)) img"

text \<open>
  The body of the \<^verbatim>\<open>try\<close> block of \<^verbatim>\<open>preprocess_image\<close> (lines 75-88). The five
  operations are total on a rank-3 float tensor, so the result is always \<open>Inr\<close>; the
  \<open>Inl\<close> case stands for an exception raised inside the block.
\<close>

definition augment :: "draws \<Rightarrow> image \<Rightarrow> error + image" where
  "augment d img =
     (let img1 = random_flip_left_right (flip_lr d) img;
          img2 = random_flip_up_down (flip_ud d) img1;
          img3 = rot90 img2 (rot_k d);
          img4 = adjust_brightness img3 (delta d);
          img5 = clip_by_value img4 0 1
      in Inr img5)"

subsection \<open>preprocess\_image\<close>

text \<open>
  \<^verbatim>\<open>GarbageDataset.preprocess_image\<close> in two steps. \<open>read_image\<close> is lines 50-61: read
  the file; on failure print the warning and take \<^verbatim>\<open>np.zeros((IMG_SIZE, IMG_SIZE, 3))\<close>,
  otherwise convert, resize and scale. \<open>preprocess_image\<close> continues with lines 63-94: in
  training mode the NaN check (early return of \<^verbatim>\<open>tf.zeros\<close>), the shape assertion (which
  raises outside the \<^verbatim>\<open>try\<close>), then the augmentation, whose exceptions are caught and
  replaced by \<^verbatim>\<open>tf.zeros\<close>; in validation mode the image is returned as read. The result
  is the log and the exception raised or the tensor returned.
\<close>

definition read_image :: "cv2 \<Rightarrow> dataset \<Rightarrow> string \<Rightarrow> log_msg list \<times> image" where
  "read_image lib self img_path =
     (case imread lib (os_path_join (root_dir self) img_path) of
        None \<Rightarrow> ([WarnCannotRead img_path], zeros IMG_SIZE IMG_SIZE 3)
      | Some raw \<Rightarrow>
          ([], astype_float32_div255
                 (resize lib (cvtColor_BGR2RGB raw) (IMG_SIZE, IMG_SIZE))))"

definition preprocess_image ::
  "cv2 \<Rightarrow> dataset \<Rightarrow> draws \<Rightarrow> string \<Rightarrow> log_msg list \<times> (error + image)" where
  "preprocess_image lib self d img_path =
     (case read_image lib self img_path of
        (msgs, img) \<Rightarrow>
          if is_training self then
            if reduce_any_is_nan img
            then (msgs @ [WarnNaN img_path], Inr (zeros IMG_SIZE IMG_SIZE 3))
            else if \<not> has_shape img IMG_SIZE IMG_SIZE 3
            then (msgs, Inl InvalidArgumentError)
            else (case augment d img of
                    Inl e \<Rightarrow> (msgs @ [AugmentFailed img_path], Inr (zeros IMG_SIZE IMG_SIZE 3))
                  | Inr img' \<Rightarrow> (msgs, Inr img'))
          else (msgs, Inr img))"

text \<open>The value range of the image data model: not \<open>NaN\<close>, and within \<open>[0, 1]\<close>.\<close>

definition in_unit :: "f32 \<Rightarrow> bool" where
  "in_unit v = (case v of NaN \<Rightarrow> False | Val r \<Rightarrow> 0 \<le> r \<and> r \<le> 1)"

section \<open>Example inputs for the image pipeline\<close>

text \<open>
  A nearest-neighbour resize, which satisfies \<open>cv2_contract\<close>; a disk holding the single
  one-pixel image \<^verbatim>\<open>garbage/a.jpg\<close>; a dataset object over the root \<^verbatim>\<open>garbage\<close>; the draws
  "no flip, no rotation, brightness +0.1"; and the image whose values all equal \<open>v\<close>.
\<close>

definition nearest_resize :: "u8image \<Rightarrow> nat \<times> nat \<Rightarrow> u8image" where
  "nearest_resize im dsize =
     (case dsize of (dw, dh) \<Rightarrow>
        map (\<lambda>i. map (\<lambda>j. im ! (i * length im div dh) ! (j * length (hd im) div dw)) [0..<dw])
            [0..<dh])"

definition constant_image :: "f32 \<Rightarrow> image" where
  "constant_image v = replicate IMG_SIZE (replicate IMG_SIZE (replicate 3 v))"

definition example_cv2 :: cv2 where
  "example_cv2 = \<lparr>imread = [''garbage/a.jpg'' \<mapsto> [[[10, 20, 30]]]], resize = nearest_resize\<rparr>"

definition example_dataset :: "bool \<Rightarrow> dataset" where
  "example_dataset training =
     \<lparr>root_dir = ''garbage'', is_training = training,
      data = [(''a.jpg'', 3), (''c.jpg'', 0)], num_samples = 2\<rparr>"

definition example_draws :: draws where
  "example_draws = \<lparr>flip_lr = False, flip_ud = False, rot_k = 0, delta = 1 / 10\<rparr>"

section \<open>The dataset generator\<close>

text \<open>
  The randomness the generator consumes, made explicit. \<open>permutation rnd p n\<close> is the
  result of the \<open>p\<close>-th call \<^verbatim>\<open>np.random.permutation(n)\<close> (counting from 0), and
  \<open>augment_draws rnd i\<close> are the draws used for the \<open>i\<close>-th sample yielded. \<open>rng_contract\<close>
  is NumPy's promise: every call returns a permutation of \<open>0, ..., n - 1\<close>.
\<close>

record rng =
  permutation :: "nat \<Rightarrow> nat \<Rightarrow> nat list"
  augment_draws :: "nat \<Rightarrow> draws"

definition rng_contract :: "rng \<Rightarrow> bool" where
  "rng_contract rnd = (\<forall>p n. mset (permutation rnd p n) = mset [0..<n])"

text \<open>
  The state of the suspended generator of \<^verbatim>\<open>create_dataset\<close>: the indices of the current
  permutation that the \<^verbatim>\<open>for\<close> loop has not reached yet, the number of permutations drawn
  so far and the number of samples yielded so far. A generator that has not started has
  drawn nothing.
\<close>

record gen_state =
  indices :: "nat list"
  passes :: nat
  yielded :: nat

definition generator_start :: gen_state where
  "generator_start = \<lparr>indices = [], passes = 0, yielded = 0\<rparr>"

text \<open>
  The body of the \<^verbatim>\<open>for\<close> loop (lines 100-101): \<^verbatim>\<open>self.data[idx]\<close> raises \<^verbatim>\<open>IndexError\<close>
  out of range, an exception of \<^verbatim>\<open>preprocess_image\<close> leaves the generator, otherwise the
  pair of the image and the label is yielded. The messages printed by
  \<^verbatim>\<open>preprocess_image\<close> are not kept here.
\<close>

definition process_sample :: "rng \<Rightarrow> cv2 \<Rightarrow> dataset \<Rightarrow> nat \<Rightarrow> nat \<Rightarrow> error + image \<times> int" where
  "process_sample rnd lib self i idx =
     (if idx < length (data self) then
        (case data self ! idx of
           (img_path, label) \<Rightarrow>
             (case snd (preprocess_image lib self (augment_draws rnd i) img_path) of
                Inl e \<Rightarrow> Inl e
              | Inr img \<Rightarrow> Inr (img, label)))
      else Inl IndexError)"

text \<open>
  One \<^verbatim>\<open>next()\<close> on the generator. When the current permutation is used up (or the
  generator has just started) the \<^verbatim>\<open>while True\<close> loop draws the next permutation and the
  \<^verbatim>\<open>for\<close> loop starts over; with an empty permutation this repeats forever, which is the
  value \<open>None\<close>. Otherwise the result is the exception that ends the generator, or the
  item yielded and the new state. The generator has no \<^verbatim>\<open>return\<close>: there is no result
  that stands for the end of the data.
\<close>

partial_function (option) generator_next ::
  "rng \<Rightarrow> cv2 \<Rightarrow> dataset \<Rightarrow> gen_state \<Rightarrow> (error + (image \<times> int) \<times> gen_state) option" where
  "generator_next rnd lib self s =
     (case indices s of
        [] \<Rightarrow>
          generator_next rnd lib self
            (s\<lparr>indices := permutation rnd (passes s) (length (data self)),
               passes := Suc (passes s)\<rparr>)
      | idx # rest \<Rightarrow>
          (case process_sample rnd lib self (yielded s) idx of
             Inl e \<Rightarrow> Some (Inl e)
           | Inr item \<Rightarrow> Some (Inr (item, s\<lparr>indices := rest, yielded := Suc (yielded s)\<rparr>))))"

text \<open>
  Pulling \<open>n\<close> items in a row from an iterator given by its \<open>next\<close> function: \<open>None\<close> when
  a pull never returns, \<open>Inl\<close> for the first exception raised, otherwise the items in
  order and the final state.
\<close>

fun iterate_next ::
  "('s \<Rightarrow> (error + 'a \<times> 's) option) \<Rightarrow> nat \<Rightarrow> 's \<Rightarrow> (error + 'a list \<times> 's) option" where
  "iterate_next nxt 0 s = Some (Inr ([], s))"
| "iterate_next nxt (Suc n) s =
     (case nxt s of
        None \<Rightarrow> None
      | Some (Inl e) \<Rightarrow> Some (Inl e)
      | Some (Inr (x, s')) \<Rightarrow>
          (case iterate_next nxt n s' of
             None \<Rightarrow> None
           | Some (Inl e) \<Rightarrow> Some (Inl e)
           | Some (Inr (xs, s'')) \<Rightarrow> Some (Inr (x # xs, s''))))"


definition generator_take ::
  "rng \<Rightarrow> cv2 \<Rightarrow> dataset \<Rightarrow> nat \<Rightarrow> gen_state \<Rightarrow> (error + (image \<times> int) list \<times> gen_state) option" where
  "generator_take rnd lib self k s = iterate_next (generator_next rnd lib self) k s"

text \<open>
  \<^verbatim>\<open>tf.data.Dataset.from_generator\<close> converts every generated pair to the declared output
  signature, a float32 tensor of shape \<open>(IMG_SIZE, IMG_SIZE, 3)\<close> and an int32 scalar, and
  raises when the pair does not fit. \<^verbatim>\<open>dataset.batch(BATCH_SIZE)\<close> groups \<open>BATCH_SIZE\<close>
  consecutive elements; the generator never ends, so no batch is short.
  \<^verbatim>\<open>prefetch\<close> does not change the sequence of batches and is not modelled.
\<close>

definition fits_int32 :: "int \<Rightarrow> bool" where
  "fits_int32 n = (- (2 ^ 31) \<le> n \<and> n < 2 ^ 31)"

definition convert_element :: "image \<times> int \<Rightarrow> error + image \<times> 32 word" where
  "convert_element x =
     (case x of
        (img, label) \<Rightarrow>
          if \<not> has_shape img IMG_SIZE IMG_SIZE 3 then Inl TypeError
          else if \<not> fits_int32 label then Inl TypeError
          else Inr (img, word_of_int label))"

definition from_generator_next ::
  "rng \<Rightarrow> cv2 \<Rightarrow> dataset \<Rightarrow> gen_state \<Rightarrow> (error + (image \<times> 32 word) \<times> gen_state) option" where
  "from_generator_next rnd lib self s =
     (case generator_next rnd lib self s of
        None \<Rightarrow> None
      | Some (Inl e) \<Rightarrow> Some (Inl e)
      | Some (Inr (x, s')) \<Rightarrow>
          (case convert_element x of
             Inl e \<Rightarrow> Some (Inl e)
           | Inr el \<Rightarrow> Some (Inr (el, s'))))"

definition batch_next ::
  "rng \<Rightarrow> cv2 \<Rightarrow> dataset \<Rightarrow> gen_state \<Rightarrow> (error + (image \<times> 32 word) list \<times> gen_state) option" where
  "batch_next rnd lib self s = iterate_next (from_generator_next rnd lib self) BATCH_SIZE s"

definition take_batches ::
  "rng \<Rightarrow> cv2 \<Rightarrow> dataset \<Rightarrow> nat \<Rightarrow> gen_state
     \<Rightarrow> (error + (image \<times> 32 word) list list \<times> gen_state) option" where
  "take_batches rnd lib self m s = iterate_next (batch_next rnd lib self) m s"

text \<open>
  What the dataset delivers for the sample \<open>idx\<close> when it is the \<open>i\<close>-th one generated:
  the loop body followed by the conversion to the output signature.
\<close>

definition dataset_sample :: "rng \<Rightarrow> cv2 \<Rightarrow> dataset \<Rightarrow> nat \<Rightarrow> nat \<Rightarrow> error + image \<times> 32 word" where
  "dataset_sample rnd lib self i idx =
     (case process_sample rnd lib self i idx of
        Inl e \<Rightarrow> Inl e
      | Inr x \<Rightarrow> convert_element x)"

text \<open>
  \<open>pass_state rnd n q r\<close> is the state of the generator inside pass \<open>q\<close> (the pass over
  the \<open>q\<close>-th permutation) once \<open>r\<close> samples of that pass have been yielded;
  \<open>state_after rnd n k\<close> is the state once \<open>k\<close> samples have been yielded in all, and
  \<open>stream_index rnd n j\<close> is the index of the \<open>j\<close>-th sample of the sequence obtained by
  laying the permutations end to end.
\<close>

definition pass_state :: "rng \<Rightarrow> nat \<Rightarrow> nat \<Rightarrow> nat \<Rightarrow> gen_state" where
  "pass_state rnd n q r =
     \<lparr>indices = drop r (permutation rnd q n), passes = Suc q, yielded = q * n + r\<rparr>"

definition state_after :: "rng \<Rightarrow> nat \<Rightarrow> nat \<Rightarrow> gen_state" where
  "state_after rnd n k =
     (if k = 0 then generator_start
      else pass_state rnd n ((k - 1) div n) (Suc ((k - 1) mod n)))"

definition stream_index :: "rng \<Rightarrow> nat \<Rightarrow> nat \<Rightarrow> nat" where
  "stream_index rnd n j = permutation rnd (j div n) n ! (j mod n)"

section \<open>The training driver\<close>

text \<open>
  Lines 157-158 of \<^verbatim>\<open>main\<close>: the step counts are the sample counts divided by the batch
  size, rounded down.
\<close>

definition steps_per_epoch :: "dataset \<Rightarrow> nat" where
  "steps_per_epoch train_dataset = num_samples train_dataset div BATCH_SIZE"

definition validation_steps :: "dataset \<Rightarrow> nat" where
  "validation_steps val_dataset = num_samples val_dataset div BATCH_SIZE"

text \<open>
  \<^verbatim>\<open>model.fit(train_data, epochs=..., steps_per_epoch=...)\<close> (lines 169-174). The loop over
  epochs is Keras code, not code of the script: for a dataset of unknown size Keras
  creates one iterator and keeps it for all epochs, and every epoch pulls
  \<^verbatim>\<open>steps_per_epoch\<close> batches from it. \<open>fit_batches rnd lib self steps epochs\<close> are the
  batches of the first \<open>epochs\<close> epochs, epoch by epoch, and the state of the generator
  after them.
\<close>

definition fit_batches ::
  "rng \<Rightarrow> cv2 \<Rightarrow> dataset \<Rightarrow> nat \<Rightarrow> nat
     \<Rightarrow> (error + (image \<times> 32 word) list list list \<times> gen_state) option" where
  "fit_batches rnd lib self steps epochs =
     iterate_next (take_batches rnd lib self steps) epochs generator_start"

text \<open>
  The learning-rate callback of line 177 is
  \<^verbatim>\<open>tf.keras.callbacks.ReduceLROnPlateau(factor=0.2, patience=2)\<close>; the optimizer starts at
  \<^verbatim>\<open>learning_rate=0.001\<close> (line 163). \<open>main_reduce_lr\<close> holds the two arguments given and
  the Keras defaults of the others (monitor \<^verbatim>\<open>val_loss\<close> in \<^verbatim>\<open>min\<close> mode,
  \<^verbatim>\<open>min_delta=1e-4\<close>, \<^verbatim>\<open>cooldown=0\<close>, \<^verbatim>\<open>min_lr=0\<close>). The callback itself is Keras code, not
  code of the script; \<open>reduce_lr_on_epoch_end\<close> follows the \<^verbatim>\<open>on_epoch_end\<close> method of the
  Keras class: the monitored value improves when it is below the best value by more
  than \<^verbatim>\<open>min_delta\<close>; otherwise, outside a cooldown, \<^verbatim>\<open>wait\<close> is incremented and, once
  it reaches \<^verbatim>\<open>patience\<close>, the learning rate is replaced by
  \<^verbatim>\<open>max(lr * factor, min_lr)\<close>. Learning rates and losses are real numbers here.
\<close>

record reduce_lr_config =
  factor :: real
  patience :: nat
  min_delta :: real
  cooldown :: nat
  min_lr :: real

record reduce_lr_state =
  best :: "real option"
  wait :: nat
  cooldown_counter :: nat
  lr :: real

definition main_reduce_lr :: reduce_lr_config where
  "main_reduce_lr =
     \<lparr>factor = 2 / 10, patience = 2, min_delta = 1 / 10000, cooldown = 0, min_lr = 0\<rparr>"

definition main_initial_lr_state :: reduce_lr_state where
  "main_initial_lr_state = \<lparr>best = None, wait = 0, cooldown_counter = 0, lr = 1 / 1000\<rparr>"

definition monitor_op :: "reduce_lr_config \<Rightarrow> real \<Rightarrow> real option \<Rightarrow> bool" where
  "monitor_op cfg current b =
     (case b of None \<Rightarrow> True | Some v \<Rightarrow> current < v - min_delta cfg)"

definition reduce_lr_on_epoch_end ::
  "reduce_lr_config \<Rightarrow> reduce_lr_state \<Rightarrow> real \<Rightarrow> reduce_lr_state" where
  "reduce_lr_on_epoch_end cfg s current =
     (let s1 = (if 0 < cooldown_counter s
                then s\<lparr>cooldown_counter := cooldown_counter s - 1, wait := 0\<rparr>
                else s)
      in if monitor_op cfg current (best s1) then s1\<lparr>best := Some current, wait := 0\<rparr>
         else if 0 < cooldown_counter s1 then s1
         else (let s2 = s1\<lparr>wait := wait s1 + 1\<rparr>
               in if patience cfg \<le> wait s2 then
                    (if min_lr cfg < lr s2
                     then s2\<lparr>lr := max (lr s2 * factor cfg) (min_lr cfg),
                             cooldown_counter := cooldown cfg, wait := 0\<rparr>
                     else s2)
                  else s2))"

section \<open>The exporter\<close>

text \<open>
  \<^verbatim>\<open>convert_to_tflite(model, dataset, filename)\<close>, lines 138-146. The TFLite converter is
  library code: \<open>tflite_convert\<close> stands for \<^verbatim>\<open>from_keras_model(model)\<close> followed by
  \<^verbatim>\<open>convert()\<close> under the given settings, a function of the settings and the model. The
  result is the log and the files after \<^verbatim>\<open>f.write(tflite_model)\<close>.
\<close>

datatype optimize = DEFAULT

datatype dtype = Float16 | Float32

record converter =
  optimizations :: "optimize list"
  supported_types :: "dtype list"

definition convert_to_tflite ::
  "(converter \<Rightarrow> 'model \<Rightarrow> 8 word list) \<Rightarrow> 'model \<Rightarrow> 'dataset \<Rightarrow> string
     \<Rightarrow> (string \<rightharpoonup> 8 word list) \<Rightarrow> log_msg list \<times> (string \<rightharpoonup> 8 word list)" where
  "convert_to_tflite tflite_convert model dataset filename files =
     (let settings = \<lparr>optimizations = [DEFAULT], supported_types = [Float16]\<rparr>;
          tflite_model = tflite_convert settings model
      in ([TFLiteSaved filename], files(filename \<mapsto> tflite_model)))"

section \<open>Example inputs for the generator\<close>

text \<open>
  A source of "random" permutations that alternates between the identity and the
  reversal, with constant augmentation draws; a dataset object of 70 samples and one of
  64 samples.
\<close>

definition example_rng :: rng where
  "example_rng =
     \<lparr>permutation = (\<lambda>p n. if even p then [0..<n] else rev [0..<n]),
      augment_draws = (\<lambda>i. example_draws)\<rparr>"

definition large_dataset :: dataset where
  "large_dataset =
     \<lparr>root_dir = ''garbage'', is_training = True,
      data = map (\<lambda>i. (''c.jpg'', int (i mod 40))) [0..<70], num_samples = 70\<rparr>"

definition aligned_dataset :: dataset where
  "aligned_dataset =
     \<lparr>root_dir = ''garbage'', is_training = True,
      data = map (\<lambda>i. (''c.jpg'', int (i mod 40))) [0..<64], num_samples = 64\<rparr>"

section \<open>Properties of the string primitives\<close>

lemma split_ws_spaces:
  "\<forall>c\<in>set ws. is_space c \<Longrightarrow> split_ws cur ws = (if cur = [] then [] else [rev cur])"
  by (induction ws arbitrary: cur) simp_all

lemma split_ws_no_space:
  "t \<in> set (split_ws cur s) \<Longrightarrow> list_all (\<lambda>c. \<not> is_space c) cur \<Longrightarrow> list_all (\<lambda>c. \<not> is_space c) t"
proof (induction s arbitrary: cur)
  case Nil
  then show ?case by (cases "cur = []") (simp_all add: list_all_iff)
next
  case (Cons a s)
  show ?case
  proof (cases "is_space a")
    case True
    then show ?thesis
      using Cons.prems Cons.IH[of "[]"] by (cases "cur = []") (auto simp: list_all_iff)
  next
    case False
    then show ?thesis
      using Cons.prems Cons.IH[of "a # cur"] by simp
  qed
qed

lemma split_ws_append_spaces:
  "\<forall>c\<in>set ws. is_space c \<Longrightarrow> split_ws cur (s @ ws) = split_ws cur s"
proof (induction s arbitrary: cur)
  case Nil
  then show ?case by (simp add: split_ws_spaces)
next
  case (Cons a s)
  then show ?case by simp
qed

lemma split_ws_dropWhile: "split_ws [] (dropWhile is_space s) = split_ws [] s"
  by (induction s) simp_all

lemma py_split_strip: "py_split (py_strip s) = py_split s"
proof -
  let ?t = "dropWhile is_space s"
  let ?body = "rev (dropWhile is_space (rev ?t))"
  let ?tail = "rev (takeWhile is_space (rev ?t))"
  have "?body @ ?tail = rev (takeWhile is_space (rev ?t) @ dropWhile is_space (rev ?t))"
    by (simp only: rev_append)
  also have "\<dots> = ?t"
    by (simp only: takeWhile_dropWhile_id rev_rev_ident)
  finally have split: "?t = ?body @ ?tail"
    by (rule sym)
  have "\<forall>c\<in>set ?tail. is_space c"
    using set_takeWhileD[of _ is_space "rev ?t"] by simp
  then have "split_ws [] (?body @ ?tail) = split_ws [] ?body"
    by (rule split_ws_append_spaces)
  with split have "split_ws [] ?t = split_ws [] ?body"
    by simp
  then show ?thesis
    by (simp add: py_split_def py_strip_def split_ws_dropWhile)
qed

lemma dropWhile_no_space:
  "list_all (\<lambda>c. \<not> is_space c) t \<Longrightarrow> dropWhile is_space t = t"
  by (cases t) simp_all

lemma py_strip_no_space:
  assumes "list_all (\<lambda>c. \<not> is_space c) t"
  shows "py_strip t = t"
proof -
  have "list_all (\<lambda>c. \<not> is_space c) (rev t)"
    using assms by (simp add: list_all_iff)
  then have "dropWhile is_space (rev t) = rev t"
    by (rule dropWhile_no_space)
  then show ?thesis
    using dropWhile_no_space[OF assms] by (simp add: py_strip_def)
qed

lemma digit_val_Some: "(digit_val c \<noteq> None) = is_digit c"
  by (simp add: digit_val_def is_digit_def)

lemma digit_val_None: "(digit_val c = None) = (\<not> is_digit c)"
  by (simp add: digit_val_def is_digit_def)

lemma underscore_not_digit: "\<not> is_digit (CHR ''_'')"
  by (simp add: is_digit_def)

lemma parse_digits_accepts:
  "(parse_digits acc b s \<noteq> None) =
     (if s = [] then b
      else list_all (\<lambda>c. is_digit c \<or> c = CHR ''_'') s \<and> no_double_underscore s
           \<and> is_digit (last s) \<and> (hd s = CHR ''_'' \<longrightarrow> b))"
proof (induction s arbitrary: acc b)
  case Nil
  then show ?case by simp
next
  case (Cons c cs)
  show ?case
  proof (cases "c = CHR ''_''")
    case True
    show ?thesis
    proof (cases cs)
      case Nil
      with True show ?thesis by (simp add: underscore_not_digit)
    next
      case (Cons d ds)
      with True Cons.IH[of acc False] show ?thesis
        by (cases b) (auto simp: underscore_not_digit)
    qed
  next
    case False
    show ?thesis
    proof (cases "digit_val c")
      case None
      then have "\<not> is_digit c"
        using digit_val_None[of c] by simp
      with False None show ?thesis by simp
    next
      case (Some v)
      then have dig: "is_digit c"
        using digit_val_Some[of c] by simp
      show ?thesis
      proof (cases cs)
        case Nil
        with False Some dig show ?thesis by simp
      next
        case (Cons d ds)
        with False Some dig Cons.IH[of "10 * acc + v" True] show ?thesis
          by auto
      qed
    qed
  qed
qed

lemma digits_body_iff: "digits_body s = (parse_digits 0 False s \<noteq> None)"
proof (cases s)
  case Nil
  then show ?thesis by (simp add: digits_body_def)
next
  case (Cons c cs)
  then show ?thesis
    unfolding parse_digits_accepts digits_body_def
    using underscore_not_digit by auto
qed

lemma py_int_accepts:
  assumes "list_all (\<lambda>c. \<not> is_space c) t"
  shows "(py_int t \<noteq> None) = is_int_token t"
proof (cases t)
  case Nil
  then show ?thesis
    by (simp add: py_int_def py_strip_def is_int_token_def)
next
  case (Cons c cs)
  then show ?thesis
    using py_strip_no_space[OF assms]
    by (simp add: py_int_def is_int_token_def digits_body_iff)
qed

lemma parse_line_value:
  assumes "well_formed_line line"
  shows "\<exists>p l n. py_split line = [p, l] \<and> py_int l = Some n
           \<and> parse_line line = Inr (py_lstrip ''./'' p, n)"
proof -
  from assms obtain p l where pl: "py_split line = [p, l]" and tok: "is_int_token l"
    by (auto simp: well_formed_line_def split: list.splits)
  have "l \<in> set (split_ws [] line)"
    using pl by (simp add: py_split_def)
  then have "list_all (\<lambda>c. \<not> is_space c) l"
    by (rule split_ws_no_space) simp
  with tok have "py_int l \<noteq> None"
    using py_int_accepts[of l] by blast
  then obtain n where n: "py_int l = Some n"
    by auto
  with pl have "parse_line line = Inr (py_lstrip ''./'' p, n)"
    by (simp add: parse_line_def py_split_strip)
  with pl n show ?thesis by blast
qed

lemma parse_line_malformed:
  assumes "\<not> well_formed_line line"
  shows "parse_line line = Inl ValueError"
proof (cases "\<exists>p l. py_split line = [p, l]")
  case True
  then obtain p l where pl: "py_split line = [p, l]"
    by blast
  have "l \<in> set (split_ws [] line)"
    using pl by (simp add: py_split_def)
  then have "list_all (\<lambda>c. \<not> is_space c) l"
    by (rule split_ws_no_space) simp
  moreover from assms pl have "\<not> is_int_token l"
    by (simp add: well_formed_line_def)
  ultimately have "py_int l = None"
    using py_int_accepts[of l] by simp
  with pl show ?thesis
    by (simp add: parse_line_def py_split_strip)
next
  case False
  then show ?thesis
    by (simp add: parse_line_def py_split_strip split: list.splits)
qed

lemma parse_line_ok_iff: "(\<exists>s. parse_line line = Inr s) = well_formed_line line"
proof (cases "well_formed_line line")
  case True
  then show ?thesis using parse_line_value[of line] by auto
next
  case False
  then show ?thesis using parse_line_malformed[of line] by simp
qed

section \<open>Properties of the manifest parser\<close>

lemma load_lines_acc:
  "load_lines lines acc =
     (case load_lines lines [] of Inl e \<Rightarrow> Inl e | Inr ss \<Rightarrow> Inr (acc @ ss))"
proof (induction lines arbitrary: acc)
  case Nil
  then show ?case by simp
next
  case (Cons line rest)
  show ?case
  proof (cases "parse_line line")
    case (Inl e)
    then show ?thesis by simp
  next
    case (Inr s)
    then show ?thesis
      using Cons.IH[of "acc @ [s]"] Cons.IH[of "[s]"]
      by (simp split: sum.splits)
  qed
qed

lemma load_lines_well_formed:
  "list_all well_formed_line lines \<Longrightarrow>
     \<exists>ss. load_lines lines [] = Inr ss \<and> map Inr ss = map parse_line lines"
proof (induction lines)
  case Nil
  then show ?case by simp
next
  case (Cons line rest)
  then obtain ss where ss: "load_lines rest [] = Inr ss" "map Inr ss = map parse_line rest"
    by auto
  from Cons.prems obtain s where s: "parse_line line = Inr s"
    using parse_line_ok_iff[of line] by auto
  have "load_lines (line # rest) [] = Inr (s # ss)"
    using s ss(1) load_lines_acc[of rest "[s]"] by simp
  with s ss(2) show ?case by simp
qed

lemma load_lines_malformed:
  "\<not> list_all well_formed_line lines \<Longrightarrow> load_lines lines acc = Inl ValueError"
proof (induction lines arbitrary: acc)
  case Nil
  then show ?case by simp
next
  case (Cons line rest)
  show ?case
  proof (cases "well_formed_line line")
    case True
    then obtain s where s: "parse_line line = Inr s"
      using parse_line_ok_iff[of line] by auto
    from True Cons.prems have "\<not> list_all well_formed_line rest"
      by simp
    then have "load_lines rest (acc @ [s]) = Inl ValueError"
      by (rule Cons.IH)
    with s show ?thesis by simp
  next
    case False
    then show ?thesis by (simp add: parse_line_malformed)
  qed
qed

lemma parse_line_label:
  assumes "parse_line line = Inr s"
  shows "label_value line = Some (snd s)"
proof -
  have "well_formed_line line"
    using assms parse_line_ok_iff[of line] by auto
  then obtain p l n where "py_split line = [p, l]" "py_int l = Some n"
      "parse_line line = Inr (py_lstrip ''./'' p, n)"
    using parse_line_value by blast
  with assms show ?thesis by (auto simp: label_value_def)
qed

lemma load_lines_labels:
  assumes "list_all well_formed_line lines"
  shows "\<exists>ss. load_lines lines [] = Inr ss \<and> map (\<lambda>s. Some (snd s)) ss = map label_value lines"
proof -
  from assms obtain ss where ss: "load_lines lines [] = Inr ss" "map Inr ss = map parse_line lines"
    using load_lines_well_formed by blast
  have len: "length ss = length lines"
    using ss(2) by (metis length_map)
  have "map (\<lambda>s. Some (snd s)) ss = map label_value lines"
  proof (rule nth_equalityI)
    show "length (map (\<lambda>s. Some (snd s)) ss) = length (map label_value lines)"
      using len by simp
  next
    fix i assume "i < length (map (\<lambda>s. Some (snd s)) ss)"
    then have i: "i < length ss" by simp
    then have "map Inr ss ! i = map parse_line lines ! i"
      using ss(2) by simp
    then have "parse_line (lines ! i) = Inr (ss ! i)"
      using i len by simp
    then have "label_value (lines ! i) = Some (snd (ss ! i))"
      by (rule parse_line_label)
    then show "map (\<lambda>s. Some (snd s)) ss ! i = map label_value lines ! i"
      using i len by simp
  qed
  with ss(1) show ?thesis by blast
qed
lemma init_malformed:
  assumes "fs (os_path_join rootdir txt_file) = Some content"
    and "\<not> list_all well_formed_line (file_lines content)"
  shows "GarbageDataset_init fs rootdir txt_file training = ([], Inl ValueError)"
  using assms load_lines_malformed[of "file_lines content" "[]"]
  by (simp add: GarbageDataset_init_def)

lemma init_well_formed:
  assumes "fs (os_path_join rootdir txt_file) = Some content"
    and "list_all well_formed_line (file_lines content)"
  shows "\<exists>samples. load_lines (file_lines content) [] = Inr samples
           \<and> map Inr samples = map parse_line (file_lines content)
           \<and> GarbageDataset_init fs rootdir txt_file training =
               ([LoadedSamples (length samples)],
                Inr \<lparr>root_dir = rootdir, is_training = training,
                     data = samples, num_samples = length samples\<rparr>)"
proof -
  from assms(2) obtain ss where "load_lines (file_lines content) [] = Inr ss"
      "map Inr ss = map parse_line (file_lines content)"
    using load_lines_well_formed by blast
  with assms(1) show ?thesis
    by (simp add: GarbageDataset_init_def)
qed
lemmas manifest_eval =
  GarbageDataset_init_def os_path_join_def file_lines_def parse_line_def py_split_def
  py_strip_def py_lstrip_def py_int_def digit_val_def is_space_def well_formed_line_def
  is_int_token_def digits_body_def is_digit_def label_value_def

text \<open>
  Claim C2 (stored path equals the path token with exactly one leading \<^verbatim>\<open>./\<close> removed
  when present, and is otherwise unchanged). The parser calls \<^verbatim>\<open>lstrip('./')\<close>, which
  removes every leading \<^verbatim>\<open>.\<close> and \<^verbatim>\<open>/\<close>: for the line \<^verbatim>\<open>../a.jpg 3\<close> it stores
  \<^verbatim>\<open>a.jpg\<close> where the path token has no \<^verbatim>\<open>./\<close> prefix and should stay \<^verbatim>\<open>../a.jpg\<close>,
  and for \<^verbatim>\<open>./.cache/a.jpg 3\<close> it stores \<^verbatim>\<open>cache/a.jpg\<close> where removing one \<^verbatim>\<open>./\<close> gives
  \<^verbatim>\<open>.cache/a.jpg\<close>.
\<close>

theorem lstrip_strips_character_set:
  "parse_line ''../a.jpg 3'' = Inr (''a.jpg'', 3)
   \<and> remove_prefix_once ''./'' ''../a.jpg'' = ''../a.jpg''
   \<and> parse_line ''./.cache/a.jpg 3'' = Inr (''cache/a.jpg'', 3)
   \<and> remove_prefix_once ''./'' ''./.cache/a.jpg'' = ''.cache/a.jpg''"
  by (simp add: manifest_eval remove_prefix_once_def)

text \<open>
  Claim C4 as stated (every label of a well-formed manifest lies in \<open>[0, 40)\<close>) fails:
  the one-line manifest \<^verbatim>\<open>a.jpg 40\<close> is well formed and its label 40 is stored as it is.
\<close>

theorem label_range_counterexample:
  "list_all well_formed_line [''a.jpg 40'']
   \<and> load_lines [''a.jpg 40''] [] = Inr [(''a.jpg'', 40)]
   \<and> \<not> in_label_domain 40"
  by (simp add: manifest_eval in_label_domain_def NUM_CLASSES_def)

text \<open>
  Claim C4, amended: for every manifest whose lines are all well formed, parsing succeeds
  and every stored label is the integer written in its line's label token, in order; the
  parser applies no range check, so the stored labels all lie in \<open>[0, NUM_CLASSES)\<close>
  exactly when the label tokens all denote integers of that range.
\<close>

theorem stored_label_is_token_value:
  assumes "list_all well_formed_line lines"
  shows "\<exists>samples. load_lines lines [] = Inr samples
           \<and> map (\<lambda>s. Some (snd s)) samples = map label_value lines
           \<and> list_all (\<lambda>s. in_label_domain (snd s)) samples
               = list_all (\<lambda>line. case label_value line of
                                      Some n \<Rightarrow> in_label_domain n | None \<Rightarrow> False) lines"
proof -
  from assms obtain ss where ss: "load_lines lines [] = Inr ss"
      and lab: "map (\<lambda>s. Some (snd s)) ss = map label_value lines"
    using load_lines_labels by blast
  let ?ok = "\<lambda>v. case v of Some n \<Rightarrow> in_label_domain n | None \<Rightarrow> False"
  have "list_all (\<lambda>s. in_label_domain (snd s)) ss
          = list_all ?ok (map (\<lambda>s. Some (snd s)) ss)"
    by (simp add: list_all_iff)
  also have "\<dots> = list_all ?ok (map label_value lines)"
    by (simp only: lab)
  also have "\<dots> = list_all (\<lambda>line. ?ok (label_value line)) lines"
    by (simp add: list_all_iff)
  finally show ?thesis
    using ss lab by blast
qed

theorem stored_label_is_token_value_witness:
  "list_all well_formed_line [''a.jpg 40'', ''./b.jpg -1'', ''c.jpg 7'']
   \<and> load_lines [''a.jpg 40'', ''./b.jpg -1'', ''c.jpg 7''] []
       = Inr [(''a.jpg'', 40), (''b.jpg'', -1), (''c.jpg'', 7)]
   \<and> map label_value [''a.jpg 40'', ''./b.jpg -1'', ''c.jpg 7''] = [Some 40, Some (-1), Some 7]"
  using stored_label_is_token_value[of "[''a.jpg 40'', ''./b.jpg -1'', ''c.jpg 7'']"]
  by (simp add: manifest_eval)

text \<open>
  Claim C5: given a manifest file that can be opened, the construction of the sample
  index fails if and only if some line is not well formed (it does not split into exactly
  two whitespace-separated tokens, or its label token is not an integer). The failure is
  the \<^verbatim>\<open>ValueError\<close> leaving \<^verbatim>\<open>__init__\<close>: nothing is logged, no object is built and
  nothing is retried. When every line is well formed, an object is built.
\<close>

theorem init_fails_iff_malformed_line:
  assumes "fs (os_path_join rootdir txt_file) = Some content"
  shows "((\<exists>e. snd (GarbageDataset_init fs rootdir txt_file training) = Inl e)
            = (\<not> list_all well_formed_line (file_lines content)))
         \<and> (\<not> list_all well_formed_line (file_lines content)
              \<longrightarrow> GarbageDataset_init fs rootdir txt_file training = ([], Inl ValueError))
         \<and> (list_all well_formed_line (file_lines content)
              \<longrightarrow> (\<exists>ds. snd (GarbageDataset_init fs rootdir txt_file training) = Inr ds))"
proof (cases "list_all well_formed_line (file_lines content)")
  case True
  then obtain samples where
    "GarbageDataset_init fs rootdir txt_file training =
       ([LoadedSamples (length samples)],
        Inr \<lparr>root_dir = rootdir, is_training = training,
             data = samples, num_samples = length samples\<rparr>)"
    using init_well_formed[of fs rootdir txt_file content training] assms by blast
  with True show ?thesis by simp
next
  case False
  then have "GarbageDataset_init fs rootdir txt_file training = ([], Inl ValueError)"
    using init_malformed[of fs rootdir txt_file content training] assms by blast
  with False show ?thesis by simp
qed

theorem init_fails_iff_malformed_line_witness:
  "[''garbage/train.txt'' \<mapsto> broken_manifest] (os_path_join ''garbage'' ''train.txt'')
     = Some broken_manifest
   \<and> \<not> list_all well_formed_line (file_lines broken_manifest)
   \<and> GarbageDataset_init [''garbage/train.txt'' \<mapsto> broken_manifest] ''garbage'' ''train.txt'' True
       = ([], Inl ValueError)
   \<and> list_all well_formed_line (file_lines scenario_manifest)
   \<and> (\<exists>ds. snd (GarbageDataset_init [''garbage/train.txt'' \<mapsto> scenario_manifest]
                    ''garbage'' ''train.txt'' True) = Inr ds)"
  using init_fails_iff_malformed_line[of "[''garbage/train.txt'' \<mapsto> broken_manifest]"
          "''garbage''" "''train.txt''" broken_manifest True]
        init_fails_iff_malformed_line[of "[''garbage/train.txt'' \<mapsto> scenario_manifest]"
          "''garbage''" "''train.txt''" scenario_manifest True]
  by (simp add: manifest_eval broken_manifest_def scenario_manifest_def)

text \<open>
  Claim C6: for every manifest whose lines are all well formed, the sample index has as
  many entries as the manifest has lines (\<^verbatim>\<open>num_samples\<close> too), and its entries are the
  parses of the lines, one per line and in the order of the lines, so nothing is
  removed, merged or reordered. In particular \<^verbatim>\<open>a.jpg 3\nb.jpg 0\n\<close> parses to
  \<^verbatim>\<open>[("a.jpg", 3), ("b.jpg", 0)]\<close> with \<^verbatim>\<open>num_samples = 2\<close>.
\<close>

theorem sample_index_follows_lines:
  "(\<forall>fs rootdir txt_file training content.
      fs (os_path_join rootdir txt_file) = Some content
      \<and> list_all well_formed_line (file_lines content)
      \<longrightarrow> (\<exists>ds. GarbageDataset_init fs rootdir txt_file training
                    = ([LoadedSamples (length (file_lines content))], Inr ds)
                \<and> num_samples ds = length (file_lines content)
                \<and> length (data ds) = length (file_lines content)
                \<and> map Inr (data ds) = map parse_line (file_lines content)))
   \<and> GarbageDataset_init [''garbage/train.txt'' \<mapsto> scenario_manifest] ''garbage'' ''train.txt'' True
       = ([LoadedSamples 2],
          Inr \<lparr>root_dir = ''garbage'', is_training = True,
               data = [(''a.jpg'', 3), (''b.jpg'', 0)], num_samples = 2\<rparr>)"
proof (intro conjI allI impI)
  fix fs rootdir txt_file training content
  assume h: "fs (os_path_join rootdir txt_file) = Some content
             \<and> list_all well_formed_line (file_lines content)"
  then obtain samples where
    m: "map Inr samples = map parse_line (file_lines content)" and
    r: "GarbageDataset_init fs rootdir txt_file training =
       ([LoadedSamples (length samples)],
        Inr \<lparr>root_dir = rootdir, is_training = training,
             data = samples, num_samples = length samples\<rparr>)"
    using init_well_formed[of fs rootdir txt_file content training] by blast
  have "length samples = length (file_lines content)"
    using m by (metis length_map)
  with m r show "\<exists>ds. GarbageDataset_init fs rootdir txt_file training
                    = ([LoadedSamples (length (file_lines content))], Inr ds)
                \<and> num_samples ds = length (file_lines content)
                \<and> length (data ds) = length (file_lines content)
                \<and> map Inr (data ds) = map parse_line (file_lines content)"
    by simp
next
  show "GarbageDataset_init [''garbage/train.txt'' \<mapsto> scenario_manifest] ''garbage'' ''train.txt'' True
       = ([LoadedSamples 2],
          Inr \<lparr>root_dir = ''garbage'', is_training = True,
               data = [(''a.jpg'', 3), (''b.jpg'', 0)], num_samples = 2\<rparr>)"
    by (simp add: manifest_eval scenario_manifest_def)
qed

theorem sample_index_follows_lines_witness:
  "[''garbage/train.txt'' \<mapsto> repeating_manifest] (os_path_join ''garbage'' ''train.txt'')
     = Some repeating_manifest
   \<and> list_all well_formed_line (file_lines repeating_manifest)
   \<and> length (file_lines repeating_manifest) = 3
   \<and> GarbageDataset_init [''garbage/train.txt'' \<mapsto> repeating_manifest] ''garbage'' ''train.txt'' False
       = ([LoadedSamples 3],
          Inr \<lparr>root_dir = ''garbage'', is_training = False,
               data = [(''x.jpg'', 1), (''y.jpg'', 2), (''x.jpg'', 1)], num_samples = 3\<rparr>)"
  using sample_index_follows_lines
  by (simp add: manifest_eval repeating_manifest_def)

section \<open>Properties of the image pipeline\<close>

lemma has_shape_nth:
  "has_shape t h w c =
     (length t = h \<and> (\<forall>i<h. length (t ! i) = w \<and> (\<forall>j<w. length (t ! i ! j) = c)))"
  unfolding has_shape_def list_all_length by auto

lemma all3_nth:
  "has_shape t h w c \<Longrightarrow>
     all3 P t = (\<forall>i<h. \<forall>j<w. \<forall>k<c. P (t ! i ! j ! k))"
  unfolding has_shape_nth all3_def list_all_length by auto

lemma has_shape_zeros: "has_shape (zeros h w c) h w c"
  by (simp add: has_shape_nth zeros_def)

lemma has_shape_map3: "has_shape (map3 f t) h w c = has_shape t h w c"
  unfolding has_shape_def map3_def list_all_iff by auto

lemma all3_map3: "all3 P (map3 f t) = all3 (\<lambda>v. P (f v)) t"
  unfolding all3_def map3_def list_all_iff by auto

lemma all3_mono: "all3 P t \<Longrightarrow> (\<And>v. P v \<Longrightarrow> Q v) \<Longrightarrow> all3 Q t"
  unfolding all3_def list_all_iff by blast

lemma has_shape_map_rev: "has_shape (map rev t) h w c = has_shape t h w c"
  unfolding has_shape_def list_all_iff by auto

lemma has_shape_rev: "has_shape (rev t) h w c = has_shape t h w c"
  unfolding has_shape_def list_all_iff by auto

lemma all3_map_rev: "all3 P (map rev t) = all3 P t"
  unfolding all3_def list_all_iff by auto

lemma all3_rev: "all3 P (rev t) = all3 P t"
  unfolding all3_def list_all_iff by auto

lemma transpose_explicit:
  assumes "has_shape t h w c" and "0 < h"
  shows "transpose t = map (\<lambda>i. map (\<lambda>j. t ! j ! i) [0..<h]) [0..<w]"
proof -
  have len: "length t = h" and rows: "\<And>i. i < length t \<Longrightarrow> length (t ! i) = w"
    using assms(1) by (simp_all add: has_shape_nth)
  have "t = [] \<Longrightarrow> w = 0"
    using len assms(2) by simp
  then have "transpose t = map (\<lambda>i. map (\<lambda>j. t ! j ! i) [0..<length t]) [0..<w]"
    using rows by (rule transpose_rectangle)
  with len show ?thesis by simp
qed

lemma has_shape_transpose:
  assumes "has_shape t h w c" and "0 < h"
  shows "has_shape (transpose t) w h c"
  using assms(1) unfolding transpose_explicit[OF assms] has_shape_nth by simp

lemma all3_transpose:
  assumes "has_shape t h w c" and "0 < h" and "all3 P t"
  shows "all3 P (transpose t)"
proof -
  have "\<forall>i<h. \<forall>j<w. \<forall>k<c. P (t ! i ! j ! k)"
    using assms(1,3) by (simp add: all3_nth)
  then have "\<forall>i<w. \<forall>j<h. \<forall>k<c. P (transpose t ! i ! j ! k)"
    unfolding transpose_explicit[OF assms(1,2)] by simp
  then show ?thesis
    using all3_nth[OF has_shape_transpose[OF assms(1,2)], of P] by simp
qed

lemma rot90_square:
  assumes "has_shape t n n c" and "0 < n"
  shows "has_shape (rot90 t k) n n c"
proof -
  have a: "has_shape (map rev t) n n c"
    using assms(1) by (simp add: has_shape_map_rev)
  have "has_shape (transpose (map rev t)) n n c"
    using a assms(2) by (rule has_shape_transpose)
  moreover have "has_shape (rev (map rev t)) n n c"
    using a by (simp add: has_shape_rev)
  moreover have "has_shape (map rev (transpose t)) n n c"
    using has_shape_transpose[OF assms] by (simp add: has_shape_map_rev)
  ultimately show ?thesis
    using assms(1) by (simp add: rot90_def Let_def)
qed

lemma rot90_all3:
  assumes "has_shape t n n c" and "0 < n" and "all3 P t"
  shows "all3 P (rot90 t k)"
proof -
  have a: "has_shape (map rev t) n n c"
    using assms(1) by (simp add: has_shape_map_rev)
  have b: "all3 P (map rev t)"
    using assms(3) by (simp add: all3_map_rev)
  have "all3 P (transpose (map rev t))"
    using a assms(2) b by (rule all3_transpose)
  moreover have "all3 P (rev (map rev t))"
    using b by (simp add: all3_rev)
  moreover have "all3 P (map rev (transpose t))"
    using all3_transpose[OF assms] by (simp add: all3_map_rev)
  ultimately show ?thesis
    using assms(3) by (simp add: rot90_def Let_def)
qed

lemma reduce_any_is_nan_iff: "reduce_any_is_nan img = (\<not> all3 (\<lambda>v. \<not> is_nan v) img)"
  unfolding reduce_any_is_nan_def all3_def list_all_iff list_ex_iff by blast

lemma clip_in_unit:
  "\<not> is_nan v \<Longrightarrow> in_unit (f32_maximum (f32_minimum (f32_add v (Val dl)) (Val 1)) (Val 0))"
  by (cases v) (simp_all add: is_nan_def in_unit_def f32_add_def f32_minimum_def f32_maximum_def)

lemma augment_result:
  assumes "has_shape img n n c" and "0 < n" and "all3 (\<lambda>v. \<not> is_nan v) img"
  shows "\<exists>img'. augment d img = Inr img' \<and> has_shape img' n n c \<and> all3 in_unit img'"
proof -
  let ?i1 = "random_flip_left_right (flip_lr d) img"
  let ?i2 = "random_flip_up_down (flip_ud d) ?i1"
  let ?i3 = "rot90 ?i2 (rot_k d)"
  have s1: "has_shape ?i1 n n c" and n1: "all3 (\<lambda>v. \<not> is_nan v) ?i1"
    using assms(1,3) by (simp_all add: random_flip_left_right_def has_shape_map_rev all3_map_rev)
  have s2: "has_shape ?i2 n n c" and n2: "all3 (\<lambda>v. \<not> is_nan v) ?i2"
    using s1 n1 by (simp_all add: random_flip_up_down_def has_shape_rev all3_rev)
  have s3: "has_shape ?i3 n n c"
    using s2 assms(2) by (rule rot90_square)
  have n3: "all3 (\<lambda>v. \<not> is_nan v) ?i3"
    using s2 assms(2) n2 by (rule rot90_all3)
  let ?i5 = "clip_by_value (adjust_brightness ?i3 (delta d)) 0 1"
  have s5: "has_shape ?i5 n n c"
    using s3 by (simp add: clip_by_value_def adjust_brightness_def has_shape_map3)
  have "all3 (\<lambda>v. in_unit (f32_maximum (f32_minimum (f32_add v (Val (delta d))) (Val 1)) (Val 0))) ?i3"
    using n3 by (rule all3_mono) (rule clip_in_unit)
  then have u5: "all3 in_unit ?i5"
    by (simp add: clip_by_value_def adjust_brightness_def all3_map3)
  have "augment d img = Inr ?i5"
    by (simp add: augment_def Let_def)
  with s5 u5 show ?thesis by blast
qed

lemma in_unit_byte: "in_unit (Val (real (unat (b :: 8 word)) / 255))"
proof -
  have "unat b < 2 ^ 8"
    using unsigned_less[of b, where 'a = nat] by simp
  then have "unat b \<le> 255"
    by simp
  then have "real (unat b) \<le> real 255"
    by (simp only: of_nat_le_iff)
  moreover have "0 \<le> real (unat b)"
    by (rule of_nat_0_le_iff)
  ultimately show ?thesis
    by (simp add: in_unit_def)
qed

lemma in_unit_not_nan: "in_unit v \<Longrightarrow> \<not> is_nan v"
  by (cases v) (simp_all add: in_unit_def is_nan_def)

lemma all3_zeros: "all3 in_unit (zeros h w c)"
  by (simp add: all3_def zeros_def list_all_iff in_unit_def)

lemma all3_byte_image: "all3 in_unit (astype_float32_div255 t)"
proof -
  have "all3 (\<lambda>b. in_unit (Val (real (unat b) / 255))) t"
    unfolding all3_def list_all_iff using in_unit_byte by blast
  then show ?thesis
    unfolding astype_float32_div255_def all3_map3 .
qed

lemma decoded_image_shape:
  assumes "cv2_contract lib" and "imread lib p = Some raw"
  shows "has_shape (astype_float32_div255 (resize lib (cvtColor_BGR2RGB raw) (IMG_SIZE, IMG_SIZE)))
           IMG_SIZE IMG_SIZE 3"
proof -
  from assms obtain h w where hw: "0 < h" "0 < w" "has_shape raw h w 3"
    unfolding cv2_contract_def by blast
  have "has_shape (cvtColor_BGR2RGB raw) h w 3"
    using hw(3) by (simp add: cvtColor_BGR2RGB_def has_shape_def list_all_iff)
  moreover have "0 < IMG_SIZE"
    by (simp add: IMG_SIZE_def)
  ultimately have "has_shape (resize lib (cvtColor_BGR2RGB raw) (IMG_SIZE, IMG_SIZE)) IMG_SIZE IMG_SIZE 3"
    using assms(1) hw(1,2) unfolding cv2_contract_def by blast
  then show ?thesis
    by (simp add: astype_float32_div255_def has_shape_map3)
qed

lemma preprocess_usable_image:
  assumes "read_image lib self img_path = (msgs, img)"
    and "has_shape img IMG_SIZE IMG_SIZE 3" and "all3 in_unit img"
  shows "\<exists>img'. preprocess_image lib self d img_path = (msgs, Inr img')
           \<and> has_shape img' IMG_SIZE IMG_SIZE 3 \<and> all3 in_unit img'"
proof (cases "is_training self")
  case True
  have nn: "all3 (\<lambda>v. \<not> is_nan v) img"
    using assms(3) by (rule all3_mono) (rule in_unit_not_nan)
  then have nonan: "\<not> reduce_any_is_nan img"
    by (simp add: reduce_any_is_nan_iff)
  have "0 < IMG_SIZE"
    by (simp add: IMG_SIZE_def)
  then obtain img' where aug: "augment d img = Inr img'" and
      ok: "has_shape img' IMG_SIZE IMG_SIZE 3" "all3 in_unit img'"
    using augment_result[OF assms(2) _ nn, of d] by blast
  have "preprocess_image lib self d img_path = (msgs, Inr img')"
    using True nonan assms(1,2) aug by (simp add: preprocess_image_def)
  with ok show ?thesis by blast
next
  case False
  then have "preprocess_image lib self d img_path = (msgs, Inr img)"
    using assms(1) by (simp add: preprocess_image_def)
  with assms(2,3) show ?thesis by blast
qed
lemma read_image_result:
  assumes "cv2_contract lib"
  shows "\<exists>msgs img. read_image lib self img_path = (msgs, img)
           \<and> has_shape img IMG_SIZE IMG_SIZE 3 \<and> all3 in_unit img"
proof (cases "imread lib (os_path_join (root_dir self) img_path)")
  case None
  then have "read_image lib self img_path = ([WarnCannotRead img_path], zeros IMG_SIZE IMG_SIZE 3)"
    by (simp add: read_image_def)
  then show ?thesis
    using has_shape_zeros all3_zeros by blast
next
  case (Some raw)
  let ?img = "astype_float32_div255 (resize lib (cvtColor_BGR2RGB raw) (IMG_SIZE, IMG_SIZE))"
  have "read_image lib self img_path = ([], ?img)"
    using Some by (simp add: read_image_def)
  moreover have "has_shape ?img IMG_SIZE IMG_SIZE 3"
    using assms Some by (rule decoded_image_shape)
  moreover have "all3 in_unit ?img"
    by (rule all3_byte_image)
  ultimately show ?thesis by blast
qed

lemma preprocess_image_result:
  assumes "cv2_contract lib"
  shows "\<exists>msgs img. preprocess_image lib self d img_path = (msgs, Inr img)
           \<and> has_shape img IMG_SIZE IMG_SIZE 3 \<and> all3 in_unit img"
proof -
  obtain msgs img where "read_image lib self img_path = (msgs, img)"
      "has_shape img IMG_SIZE IMG_SIZE 3" "all3 in_unit img"
    using read_image_result[OF assms] by blast
  then show ?thesis
    using preprocess_usable_image[of lib self img_path msgs img d] by blast
qed

lemma nearest_resize_shape:
  assumes "has_shape im h w c" and "0 < h" and "0 < w" and "0 < dw" and "0 < dh"
  shows "has_shape (nearest_resize im (dw, dh)) dh dw c"
proof -
  have len: "length im = h" and rows: "\<And>i. i < h \<Longrightarrow> length (im ! i) = w"
    and px: "\<And>i j. i < h \<Longrightarrow> j < w \<Longrightarrow> length (im ! i ! j) = c"
    using assms(1) by (simp_all add: has_shape_nth)
  have hd: "length (hd im) = w"
    using rows[of 0] assms(2) len by (cases im) simp_all
  have r: "i * h div dh < h" if "i < dh" for i
  proof -
    have "i * h < h * dh"
      using that assms(2) by simp
    then show ?thesis
      by (rule less_mult_imp_div_less)
  qed
  have q: "j * w div dw < w" if "j < dw" for j
  proof -
    have "j * w < w * dw"
      using that assms(3) by simp
    then show ?thesis
      by (rule less_mult_imp_div_less)
  qed
  show ?thesis
    unfolding has_shape_nth nearest_resize_def
    using len hd r q px by simp
qed

lemma example_cv2_contract: "cv2_contract example_cv2"
proof -
  have "has_shape [[[10, 20, 30 :: 8 word]]] 1 1 3"
    by (simp add: has_shape_def)
  then have "\<exists>h w. 0 < h \<and> 0 < w \<and> has_shape [[[10, 20, 30 :: 8 word]]] h w 3"
    by (intro exI[of _ 1]) simp
  then show ?thesis
    unfolding cv2_contract_def example_cv2_def
    by (auto simp: nearest_resize_shape split: if_splits)
qed

text \<open>
  Claim C7: for every image path (valid, missing or corrupt), in training and in
  validation mode and whatever the random draws, \<^verbatim>\<open>preprocess_image\<close> returns a tensor (it
  raises nothing) of shape \<open>(IMG_SIZE, IMG_SIZE, 3) = (224, 224, 3)\<close> whose values are
  float32 numbers, none of them \<open>NaN\<close>, all within \<open>[0, 1]\<close>. The OpenCV functions are
  assumed to meet \<open>cv2_contract\<close>.
\<close>

theorem preprocess_image_shape_and_range:
  assumes "cv2_contract lib"
  shows "\<exists>img. snd (preprocess_image lib self d img_path) = Inr img
           \<and> has_shape img IMG_SIZE IMG_SIZE 3 \<and> all3 in_unit img"
proof -
  obtain msgs img where "preprocess_image lib self d img_path = (msgs, Inr img)"
      "has_shape img IMG_SIZE IMG_SIZE 3" "all3 in_unit img"
    using preprocess_image_result[OF assms] by blast
  then show ?thesis by simp
qed

theorem preprocess_image_shape_and_range_witness:
  "cv2_contract example_cv2
   \<and> (\<exists>img. snd (preprocess_image example_cv2 (example_dataset True) example_draws ''a.jpg'')
               = Inr img
            \<and> has_shape img 224 224 3 \<and> all3 in_unit img)
   \<and> (\<exists>img. snd (preprocess_image example_cv2 (example_dataset False) example_draws ''c.jpg'')
               = Inr img
            \<and> has_shape img 224 224 3 \<and> all3 in_unit img)"
  using preprocess_image_shape_and_range[OF example_cv2_contract,
          of "example_dataset True" example_draws "''a.jpg''"]
        preprocess_image_shape_and_range[OF example_cv2_contract,
          of "example_dataset False" example_draws "''c.jpg''"]
        example_cv2_contract
  by (simp add: IMG_SIZE_def)
lemma has_shape_constant_image: "has_shape (constant_image v) IMG_SIZE IMG_SIZE 3"
  by (simp add: constant_image_def has_shape_nth)

lemma transpose_constant_image: "transpose (constant_image v) = constant_image v"
proof -
  have pos: "0 < IMG_SIZE"
    by (simp add: IMG_SIZE_def)
  have "transpose (constant_image v)
          = map (\<lambda>i. map (\<lambda>j. constant_image v ! j ! i) [0..<IMG_SIZE]) [0..<IMG_SIZE]"
    using has_shape_constant_image pos by (rule transpose_explicit)
  also have "\<dots> = map (\<lambda>i. map (\<lambda>j. replicate 3 v) [0..<IMG_SIZE]) [0..<IMG_SIZE]"
    by (simp add: constant_image_def cong: map_cong)
  also have "\<dots> = constant_image v"
    by (simp add: constant_image_def map_replicate_const)
  finally show ?thesis .
qed

lemma rot90_constant_image: "rot90 (constant_image v) k = constant_image v"
proof -
  have "map rev (constant_image v) = constant_image v"
    by (simp add: constant_image_def)
  moreover have "rev (constant_image v) = constant_image v"
    by (simp add: constant_image_def)
  ultimately show ?thesis
    by (simp add: rot90_def Let_def transpose_constant_image)
qed

lemma augment_constant_image:
  "augment d (constant_image v) =
     Inr (constant_image (f32_maximum (f32_minimum (f32_add v (Val (delta d))) (Val 1)) (Val 0)))"
proof -
  have "random_flip_left_right (flip_lr d) (constant_image v) = constant_image v"
    by (simp add: random_flip_left_right_def constant_image_def)
  moreover have "random_flip_up_down (flip_ud d) (constant_image v) = constant_image v"
    by (simp add: random_flip_up_down_def constant_image_def)
  moreover have "clip_by_value (adjust_brightness (constant_image v) (delta d)) 0 1
      = constant_image (f32_maximum (f32_minimum (f32_add v (Val (delta d))) (Val 1)) (Val 0))"
    by (simp add: clip_by_value_def adjust_brightness_def map3_def constant_image_def)
  ultimately show ?thesis
    by (simp add: augment_def rot90_constant_image)
qed

lemma zeros_constant_image: "zeros IMG_SIZE IMG_SIZE 3 = constant_image (Val 0)"
  by (simp add: zeros_def constant_image_def)

lemma missing_file_training:
  assumes "imread lib (os_path_join (root_dir self) img_path) = None" and "is_training self"
  shows "preprocess_image lib self d img_path =
           ([WarnCannotRead img_path], Inr (constant_image (Val (max (min (delta d) 1) 0))))"
proof -
  have r: "read_image lib self img_path = ([WarnCannotRead img_path], constant_image (Val 0))"
    using assms(1) by (simp add: read_image_def zeros_constant_image)
  have "all3 in_unit (constant_image (Val 0))"
    using all3_zeros[of IMG_SIZE IMG_SIZE 3] by (simp add: zeros_constant_image)
  then have "all3 (\<lambda>v. \<not> is_nan v) (constant_image (Val 0))"
    by (rule all3_mono) (rule in_unit_not_nan)
  then have "\<not> reduce_any_is_nan (constant_image (Val 0))"
    by (simp add: reduce_any_is_nan_iff)
  moreover have "augment d (constant_image (Val 0))
      = Inr (constant_image (Val (max (min (delta d) 1) 0)))"
    by (simp add: augment_constant_image f32_add_def f32_minimum_def f32_maximum_def)
  ultimately show ?thesis
    using r assms(2) has_shape_constant_image[of "Val 0"]
    by (simp add: preprocess_image_def)
qed

lemma missing_file_validation:
  assumes "imread lib (os_path_join (root_dir self) img_path) = None" and "\<not> is_training self"
  shows "preprocess_image lib self d img_path =
           ([WarnCannotRead img_path], Inr (zeros IMG_SIZE IMG_SIZE 3))"
  using assms by (simp add: preprocess_image_def read_image_def)

text \<open>
  Claim C1 (a missing or undecodable file in training mode yields the all-zero tensor,
  with a logged warning and no exception). The warning is logged and nothing is raised,
  but the blank image is not returned as it is: unlike the two \<^verbatim>\<open>return tf.zeros(...)\<close>
  paths, the read failure falls through to the augmentation, where the brightness
  shift is added before clipping. By \<open>missing_file_training\<close> every value of the result
  is \<open>max (min delta 1) 0\<close>; with the draw \<open>delta = 0.1\<close> the missing file \<^verbatim>\<open>c.jpg\<close> yields
  the tensor whose values are all 0.1.
\<close>

theorem missing_file_training_not_zero:
  "imread example_cv2 (os_path_join (root_dir (example_dataset True)) ''c.jpg'') = None
   \<and> is_training (example_dataset True)
   \<and> preprocess_image example_cv2 (example_dataset True) example_draws ''c.jpg''
       = ([WarnCannotRead ''c.jpg''], Inr (constant_image (Val (1 / 10))))
   \<and> constant_image (Val (1 / 10)) \<noteq> zeros IMG_SIZE IMG_SIZE 3"
proof -
  have a: "imread example_cv2 (os_path_join (root_dir (example_dataset True)) ''c.jpg'') = None"
    by (simp add: example_cv2_def example_dataset_def os_path_join_def)
  have b: "is_training (example_dataset True)"
    by (simp add: example_dataset_def)
  have "preprocess_image example_cv2 (example_dataset True) example_draws ''c.jpg''
       = ([WarnCannotRead ''c.jpg''], Inr (constant_image (Val (max (min (delta example_draws) 1) 0))))"
    using a b by (rule missing_file_training)
  then have c: "preprocess_image example_cv2 (example_dataset True) example_draws ''c.jpg''
       = ([WarnCannotRead ''c.jpg''], Inr (constant_image (Val (1 / 10))))"
    by (simp add: example_draws_def)
  have d: "constant_image (Val (1 / 10)) \<noteq> zeros IMG_SIZE IMG_SIZE 3"
    by (simp add: constant_image_def zeros_def IMG_SIZE_def)
  from a b c d show ?thesis by blast
qed

section \<open>Properties of the dataset generator\<close>

lemma permutation_length: "rng_contract rnd \<Longrightarrow> length (permutation rnd p n) = n"
  using mset_eq_length[of "permutation rnd p n" "[0..<n]"] by (simp add: rng_contract_def)

lemma permutation_nth_less:
  assumes "rng_contract rnd" and "r < n"
  shows "permutation rnd p n ! r < n"
proof -
  have "set (permutation rnd p n) = set [0..<n]"
    using assms(1) mset_eq_setD[of "permutation rnd p n" "[0..<n]"] by (simp add: rng_contract_def)
  moreover have "permutation rnd p n ! r \<in> set (permutation rnd p n)"
    using assms permutation_length[of rnd p n] by simp
  ultimately show ?thesis by simp
qed

lemma process_sample_ok:
  assumes "cv2_contract lib" and "idx < length (data self)"
  shows "\<exists>img. process_sample rnd lib self i idx = Inr (img, snd (data self ! idx))
           \<and> has_shape img IMG_SIZE IMG_SIZE 3 \<and> all3 in_unit img"
proof -
  obtain img_path label where s: "data self ! idx = (img_path, label)"
    by (cases "data self ! idx")
  obtain msgs img where "preprocess_image lib self (augment_draws rnd i) img_path = (msgs, Inr img)"
      "has_shape img IMG_SIZE IMG_SIZE 3" "all3 in_unit img"
    using preprocess_image_result[OF assms(1)] by blast
  with s assms(2) show ?thesis
    by (simp add: process_sample_def)
qed

lemma next_inside_pass:
  assumes "cv2_contract lib" and "rng_contract rnd" and "r < length (data self)"
  shows "\<exists>item. generator_next rnd lib self (pass_state rnd (length (data self)) q r)
             = Some (Inr (item, pass_state rnd (length (data self)) q (Suc r)))
           \<and> Inr item = process_sample rnd lib self (q * length (data self) + r)
                           (permutation rnd q (length (data self)) ! r)"
proof -
  let ?n = "length (data self)"
  let ?perm = "permutation rnd q ?n"
  have len: "length ?perm = ?n"
    using assms(2) by (rule permutation_length)
  then have split: "drop r ?perm = ?perm ! r # drop (Suc r) ?perm"
    using assms(3) by (simp add: Cons_nth_drop_Suc)
  have "?perm ! r < ?n"
    using assms(2,3) by (rule permutation_nth_less)
  then obtain img where
    item: "process_sample rnd lib self (q * ?n + r) (?perm ! r) = Inr (img, snd (data self ! (?perm ! r)))"
    using process_sample_ok[OF assms(1), of "?perm ! r" self rnd "q * ?n + r"] by blast
  have "generator_next rnd lib self (pass_state rnd ?n q r)
          = Some (Inr ((img, snd (data self ! (?perm ! r))), pass_state rnd ?n q (Suc r)))"
    by (subst generator_next.simps) (simp add: pass_state_def split item)
  with item show ?thesis by simp
qed

lemma next_at_pass_end:
  assumes "rng_contract rnd"
  shows "generator_next rnd lib self (pass_state rnd (length (data self)) q (length (data self)))
           = generator_next rnd lib self (pass_state rnd (length (data self)) (Suc q) 0)"
proof -
  have "length (permutation rnd q (length (data self))) = length (data self)"
    using assms by (rule permutation_length)
  then show ?thesis
    by (subst generator_next.simps) (simp add: pass_state_def add.commute)
qed

lemma next_at_start:
  "generator_next rnd lib self generator_start
     = generator_next rnd lib self (pass_state rnd (length (data self)) 0 0)"
  by (subst generator_next.simps) (simp add: pass_state_def generator_start_def)

lemma state_after_Suc:
  assumes "0 < n"
  shows "state_after rnd n (Suc k) = pass_state rnd n (k div n) (Suc (k mod n))"
  by (simp add: state_after_def)

lemma next_after:
  assumes "cv2_contract lib" and "rng_contract rnd" and "0 < length (data self)"
  shows "\<exists>item. generator_next rnd lib self (state_after rnd (length (data self)) k)
             = Some (Inr (item, state_after rnd (length (data self)) (Suc k)))
           \<and> Inr item = process_sample rnd lib self k (stream_index rnd (length (data self)) k)"
proof -
  let ?n = "length (data self)"
  show ?thesis
  proof (cases k)
    case 0
    have "generator_next rnd lib self (state_after rnd ?n 0)
            = generator_next rnd lib self (pass_state rnd ?n 0 0)"
      by (simp add: state_after_def next_at_start)
    moreover obtain item where
      "generator_next rnd lib self (pass_state rnd ?n 0 0)
         = Some (Inr (item, pass_state rnd ?n 0 (Suc 0)))"
      "Inr item = process_sample rnd lib self (0 * ?n + 0) (permutation rnd 0 ?n ! 0)"
      using next_inside_pass[OF assms(1,2), of 0 self 0] assms(3) by blast
    ultimately show ?thesis
      using 0 assms(3) by (simp add: state_after_Suc stream_index_def)
  next
    case (Suc m)
    let ?q = "m div ?n" and ?r = "m mod ?n"
    have st: "state_after rnd ?n k = pass_state rnd ?n ?q (Suc ?r)"
      using Suc assms(3) by (simp add: state_after_Suc)
    have k: "k = ?q * ?n + Suc ?r"
      using Suc by simp
    have "Suc ?r \<le> ?n"
      using assms(3) by (simp add: Suc_leI)
    then consider (inside) "Suc ?r < ?n" | (last) "Suc ?r = ?n"
      by linarith
    then show ?thesis
    proof cases
      case inside
      then have d: "k div ?n = ?q" and md: "k mod ?n = Suc ?r"
        using Suc by (simp_all add: div_Suc mod_Suc)
      obtain item where
        "generator_next rnd lib self (pass_state rnd ?n ?q (Suc ?r))
           = Some (Inr (item, pass_state rnd ?n ?q (Suc (Suc ?r))))"
        "Inr item = process_sample rnd lib self (?q * ?n + Suc ?r) (permutation rnd ?q ?n ! Suc ?r)"
        using next_inside_pass[OF assms(1,2) inside, of ?q] by blast
      then show ?thesis
        using st k d md assms(3) by (simp add: state_after_Suc stream_index_def)
    next
      case last
      then have k': "k = Suc ?q * ?n"
        using k by simp
      have d: "k div ?n = Suc ?q" and md: "k mod ?n = 0"
        using Suc last by (simp_all add: div_Suc mod_Suc)
      have "generator_next rnd lib self (pass_state rnd ?n ?q (Suc ?r))
              = generator_next rnd lib self (pass_state rnd ?n (Suc ?q) 0)"
        using next_at_pass_end[OF assms(2), of lib self ?q] last by simp
      moreover obtain item where
        "generator_next rnd lib self (pass_state rnd ?n (Suc ?q) 0)
           = Some (Inr (item, pass_state rnd ?n (Suc ?q) (Suc 0)))"
        "Inr item = process_sample rnd lib self (Suc ?q * ?n + 0) (permutation rnd (Suc ?q) ?n ! 0)"
        using next_inside_pass[OF assms(1,2), of 0 self "Suc ?q"] assms(3) by blast
      ultimately show ?thesis
        using st k' d md assms(3) by (simp add: state_after_Suc stream_index_def)
    qed
  qed
qed

lemma iterate_next_run:
  assumes "\<And>j. j < n \<Longrightarrow>
             \<exists>x. nxt (st (i + j)) = Some (Inr (x, st (Suc (i + j)))) \<and> P (i + j) x"
  shows "\<exists>xs. iterate_next nxt n (st i) = Some (Inr (xs, st (i + n)))
           \<and> length xs = n \<and> (\<forall>j<n. P (i + j) (xs ! j))"
  using assms
proof (induction n arbitrary: i)
  case 0
  then show ?case by simp
next
  case (Suc n)
  obtain x where x: "nxt (st i) = Some (Inr (x, st (Suc i)))" "P i x"
    using Suc.prems[of 0] by auto
  have "\<exists>xs. iterate_next nxt n (st (Suc i)) = Some (Inr (xs, st (Suc i + n)))
           \<and> length xs = n \<and> (\<forall>j<n. P (Suc i + j) (xs ! j))"
  proof (rule Suc.IH)
    fix j assume "j < n"
    then show "\<exists>x. nxt (st (Suc i + j)) = Some (Inr (x, st (Suc (Suc i + j)))) \<and> P (Suc i + j) x"
      using Suc.prems[of "Suc j"] by simp
  qed
  then obtain xs where xs: "iterate_next nxt n (st (Suc i)) = Some (Inr (xs, st (Suc i + n)))"
      "length xs = n" "\<forall>j<n. P (Suc i + j) (xs ! j)"
    by blast
  have "iterate_next nxt (Suc n) (st i) = Some (Inr (x # xs, st (i + Suc n)))"
    using x(1) xs(1) by simp
  moreover have "length (x # xs) = Suc n"
    using xs(2) by simp
  moreover have "\<forall>j<Suc n. P (i + j) ((x # xs) ! j)"
  proof (intro allI impI)
    fix j assume "j < Suc n"
    then show "P (i + j) ((x # xs) ! j)"
      using x(2) xs(3) by (cases j) simp_all
  qed
  ultimately show ?case by blast
qed

lemma map_eq_from_nth:
  assumes "length xs = n" and "\<forall>j<n. f (xs ! j) = g (i + j)"
  shows "map f xs = map g [i..<i + n]"
  using assms by (intro nth_equalityI) simp_all

lemma stream_index_pass:
  assumes "rng_contract rnd" and "0 < n"
  shows "map (stream_index rnd n) [q * n..<q * n + n] = permutation rnd q n"
proof (rule nth_equalityI)
  show "length (map (stream_index rnd n) [q * n..<q * n + n]) = length (permutation rnd q n)"
    using permutation_length[OF assms(1), of q n] by simp
next
  fix r assume "r < length (map (stream_index rnd n) [q * n..<q * n + n])"
  then have r: "r < n" by simp
  then have "stream_index rnd n (q * n + r) = permutation rnd q n ! r"
    by (simp add: stream_index_def)
  with r show "map (stream_index rnd n) [q * n..<q * n + n] ! r = permutation rnd q n ! r"
    by simp
qed

lemma passes_state_after:
  "passes (state_after rnd n k) = (if k = 0 then 0 else Suc ((k - 1) div n))"
  by (simp add: state_after_def generator_start_def pass_state_def)

lemma example_rng_contract: "rng_contract example_rng"
  by (simp add: rng_contract_def example_rng_def)

text \<open>
  Claim C9: for every non-empty sample index the generator never ends. Under the
  contracts of OpenCV and NumPy, for every \<open>k\<close> the first \<open>k\<close> calls of \<^verbatim>\<open>next()\<close> on a
  fresh generator all return an item (none diverges, none raises, and the generator has no
  way to signal the end of the data); the \<open>j\<close>-th item is the processed sample at position
  \<open>j mod N\<close> of permutation number \<open>j div N\<close>; after \<open>k > 0\<close> items exactly
  \<open>(k - 1) div N + 1\<close> permutations have been drawn, so a fresh one is drawn after each
  \<open>N\<close> samples; and each pass runs through one permutation of the full index.
\<close>

theorem generator_never_ends:
  assumes "cv2_contract lib" and "rng_contract rnd" and "data self \<noteq> []"
  shows "(\<exists>items. generator_take rnd lib self k generator_start
                    = Some (Inr (items, state_after rnd (length (data self)) k))
            \<and> length items = k
            \<and> map Inr items
                = map (\<lambda>j. process_sample rnd lib self j (stream_index rnd (length (data self)) j))
                      [0..<k])
         \<and> passes (state_after rnd (length (data self)) k)
             = (if k = 0 then 0 else Suc ((k - 1) div length (data self)))
         \<and> (\<forall>q. map (stream_index rnd (length (data self)))
                    [q * length (data self)..<q * length (data self) + length (data self)]
                  = permutation rnd q (length (data self))
                \<and> mset (permutation rnd q (length (data self))) = mset [0..<length (data self)])"
proof -
  let ?n = "length (data self)"
  have pos: "0 < ?n"
    using assms(3) by simp
  have "\<exists>items. iterate_next (generator_next rnd lib self) k (state_after rnd ?n 0)
                  = Some (Inr (items, state_after rnd ?n (0 + k)))
          \<and> length items = k
          \<and> (\<forall>j<k. Inr (items ! j)
                      = process_sample rnd lib self (0 + j) (stream_index rnd ?n (0 + j)))"
  proof (rule iterate_next_run)
    fix j assume "j < k"
    show "\<exists>x. generator_next rnd lib self (state_after rnd ?n (0 + j))
                 = Some (Inr (x, state_after rnd ?n (Suc (0 + j))))
              \<and> Inr x = process_sample rnd lib self (0 + j) (stream_index rnd ?n (0 + j))"
      using next_after[OF assms(1,2) pos, of "0 + j"] .
  qed
  then obtain items where run:
      "iterate_next (generator_next rnd lib self) k (state_after rnd ?n 0)
         = Some (Inr (items, state_after rnd ?n k))"
      and len: "length items = k"
      and each: "\<forall>j<k. Inr (items ! j) = process_sample rnd lib self j (stream_index rnd ?n j)"
    by auto
  have "map Inr items
          = map (\<lambda>j. process_sample rnd lib self j (stream_index rnd ?n j)) [0..<0 + k]"
    using len each by (intro map_eq_from_nth) simp_all
  then have "\<exists>items. generator_take rnd lib self k generator_start
                    = Some (Inr (items, state_after rnd ?n k))
            \<and> length items = k
            \<and> map Inr items
                = map (\<lambda>j. process_sample rnd lib self j (stream_index rnd ?n j)) [0..<k]"
    using run len by (auto simp: generator_take_def state_after_def)
  moreover have "\<forall>q. map (stream_index rnd ?n) [q * ?n..<q * ?n + ?n] = permutation rnd q ?n
                    \<and> mset (permutation rnd q ?n) = mset [0..<?n]"
    using stream_index_pass[OF assms(2) pos] assms(2) by (simp add: rng_contract_def)
  ultimately show ?thesis
    using passes_state_after[of rnd ?n k] by blast
qed

theorem generator_never_ends_witness:
  "cv2_contract example_cv2 \<and> rng_contract example_rng \<and> data (example_dataset True) \<noteq> []
   \<and> (\<exists>items. generator_take example_rng example_cv2 (example_dataset True) 5 generator_start
                = Some (Inr (items, state_after example_rng 2 5))
             \<and> length items = 5)
   \<and> passes (state_after example_rng 2 5) = 3
   \<and> map (stream_index example_rng 2) [0..<5] = [0, 1, 1, 0, 0]"
proof -
  have d: "data (example_dataset True) \<noteq> []" and n: "length (data (example_dataset True)) = 2"
    by (simp_all add: example_dataset_def)
  have "map (stream_index example_rng 2) [0..<5] = [0, 1, 1, 0, 0]"
    by (simp add: stream_index_def example_rng_def upt_rec)
  then show ?thesis
    using generator_never_ends[OF example_cv2_contract example_rng_contract d, of 5]
      example_cv2_contract example_rng_contract d n
    by auto
qed
text \<open>
  The premise that the index is not empty is needed: on an empty index every
  permutation is empty, so the first \<^verbatim>\<open>next()\<close> loops forever without yielding.
\<close>

lemma empty_index_never_yields:
  assumes "generator_next rnd lib self s = Some y"
  shows "\<not> (rng_contract rnd \<and> data self = [] \<and> indices s = [])"
proof (rule generator_next.raw_induct
         [where P = "\<lambda>rnd lib self s y. \<not> (rng_contract rnd \<and> data self = [] \<and> indices s = [])",
          OF _ assms])
  fix f :: "rng \<Rightarrow> cv2 \<Rightarrow> dataset \<Rightarrow> gen_state \<Rightarrow> (error + (image \<times> int) \<times> gen_state) option"
  fix rnd lib self s y
  assume IH: "\<And>rnd lib self s y. f rnd lib self s = Some y
                \<Longrightarrow> \<not> (rng_contract rnd \<and> data self = [] \<and> indices s = [])"
  assume step: "(case indices s of
        [] \<Rightarrow> f rnd lib self
            (s\<lparr>indices := permutation rnd (passes s) (length (data self)),
               passes := Suc (passes s)\<rparr>)
      | idx # rest \<Rightarrow>
          (case process_sample rnd lib self (yielded s) idx of
             Inl e \<Rightarrow> Some (Inl e)
           | Inr item \<Rightarrow> Some (Inr (item, s\<lparr>indices := rest, yielded := Suc (yielded s)\<rparr>)))) = Some y"
  show "\<not> (rng_contract rnd \<and> data self = [] \<and> indices s = [])"
  proof
    assume h: "rng_contract rnd \<and> data self = [] \<and> indices s = []"
    then have p: "permutation rnd (passes s) (length (data self)) = []"
      using permutation_length[of rnd "passes s" 0] by simp
    from h step have "f rnd lib self
            (s\<lparr>indices := permutation rnd (passes s) (length (data self)),
               passes := Suc (passes s)\<rparr>) = Some y"
      by simp
    then have "\<not> (rng_contract rnd \<and> data self = []
                  \<and> indices (s\<lparr>indices := permutation rnd (passes s) (length (data self)),
                               passes := Suc (passes s)\<rparr>) = [])"
      by (rule IH)
    with h p show False by simp
  qed
qed

lemma empty_index_diverges:
  assumes "rng_contract rnd" and "data self = []"
  shows "generator_next rnd lib self generator_start = None"
proof (cases "generator_next rnd lib self generator_start")
  case None
  then show ?thesis .
next
  case (Some y)
  then show ?thesis
    using empty_index_never_yields[OF Some] assms by (simp add: generator_start_def)
qed

lemma from_generator_after:
  assumes "cv2_contract lib" and "rng_contract rnd" and "0 < length (data self)"
    and "list_all (\<lambda>s. fits_int32 (snd s)) (data self)"
  shows "\<exists>el. from_generator_next rnd lib self (state_after rnd (length (data self)) k)
             = Some (Inr (el, state_after rnd (length (data self)) (Suc k)))
           \<and> Inr el = dataset_sample rnd lib self k (stream_index rnd (length (data self)) k)"
proof -
  let ?n = "length (data self)"
  let ?idx = "stream_index rnd ?n k"
  obtain item where nx: "generator_next rnd lib self (state_after rnd ?n k)
             = Some (Inr (item, state_after rnd ?n (Suc k)))"
      and item: "Inr item = process_sample rnd lib self k ?idx"
    using next_after[OF assms(1,2,3), of k] by blast
  have idx: "?idx < ?n"
    unfolding stream_index_def using assms(2,3) by (intro permutation_nth_less) simp_all
  then obtain img where ps: "process_sample rnd lib self k ?idx = Inr (img, snd (data self ! ?idx))"
      and shape: "has_shape img IMG_SIZE IMG_SIZE 3"
    using process_sample_ok[OF assms(1), of ?idx self rnd k] by blast
  have "fits_int32 (snd (data self ! ?idx))"
    using assms(4) idx by (simp add: list_all_length)
  with shape have conv: "convert_element (img, snd (data self ! ?idx))
      = Inr (img, word_of_int (snd (data self ! ?idx)))"
    by (simp add: convert_element_def)
  have it: "item = (img, snd (data self ! ?idx))"
    using item ps by simp
  have "from_generator_next rnd lib self (state_after rnd ?n k)
          = Some (Inr ((img, word_of_int (snd (data self ! ?idx))), state_after rnd ?n (Suc k)))"
    using nx it conv by (simp add: from_generator_next_def)
  moreover have "Inr (img, word_of_int (snd (data self ! ?idx)) :: 32 word)
      = dataset_sample rnd lib self k ?idx"
    using ps conv by (simp add: dataset_sample_def)
  ultimately show ?thesis by blast
qed

lemma batch_after:
  assumes "cv2_contract lib" and "rng_contract rnd" and "0 < length (data self)"
    and "list_all (\<lambda>s. fits_int32 (snd s)) (data self)"
  shows "\<exists>batch. batch_next rnd lib self (state_after rnd (length (data self)) (BATCH_SIZE * b))
             = Some (Inr (batch, state_after rnd (length (data self)) (BATCH_SIZE * Suc b)))
           \<and> length batch = BATCH_SIZE
           \<and> map Inr batch
               = map (\<lambda>j. dataset_sample rnd lib self j (stream_index rnd (length (data self)) j))
                     [BATCH_SIZE * b..<BATCH_SIZE * b + BATCH_SIZE]"
proof -
  let ?n = "length (data self)"
  let ?i = "BATCH_SIZE * b"
  have "\<exists>xs. iterate_next (from_generator_next rnd lib self) BATCH_SIZE (state_after rnd ?n ?i)
                  = Some (Inr (xs, state_after rnd ?n (?i + BATCH_SIZE)))
          \<and> length xs = BATCH_SIZE
          \<and> (\<forall>j<BATCH_SIZE. Inr (xs ! j)
                      = dataset_sample rnd lib self (?i + j) (stream_index rnd ?n (?i + j)))"
  proof (rule iterate_next_run)
    fix j assume "j < BATCH_SIZE"
    show "\<exists>x. from_generator_next rnd lib self (state_after rnd ?n (?i + j))
                 = Some (Inr (x, state_after rnd ?n (Suc (?i + j))))
              \<and> Inr x = dataset_sample rnd lib self (?i + j) (stream_index rnd ?n (?i + j))"
      using from_generator_after[OF assms, of "?i + j"] .
  qed
  then obtain xs where run:
      "iterate_next (from_generator_next rnd lib self) BATCH_SIZE (state_after rnd ?n ?i)
         = Some (Inr (xs, state_after rnd ?n (?i + BATCH_SIZE)))"
      and len: "length xs = BATCH_SIZE"
      and each: "\<forall>j<BATCH_SIZE. Inr (xs ! j)
                   = dataset_sample rnd lib self (?i + j) (stream_index rnd ?n (?i + j))"
    by blast
  have m: "map Inr xs = map (\<lambda>j. dataset_sample rnd lib self j (stream_index rnd ?n j))
                         [?i..<?i + BATCH_SIZE]"
    using len each by (intro map_eq_from_nth) simp_all
  have e: "?i + BATCH_SIZE = BATCH_SIZE * Suc b"
    by simp
  have "iterate_next (from_generator_next rnd lib self) BATCH_SIZE (state_after rnd ?n ?i)
         = Some (Inr (xs, state_after rnd ?n (BATCH_SIZE * Suc b)))"
    using run by (simp only: e)
  then show ?thesis
    unfolding batch_next_def using len m by blast
qed

lemma first_pass_index:
  assumes "j < n"
  shows "stream_index rnd n j = permutation rnd 0 n ! j"
  using assms by (simp add: stream_index_def)

lemma batches_after:
  assumes "cv2_contract lib" and "rng_contract rnd" and "0 < length (data self)"
    and "list_all (\<lambda>s. fits_int32 (snd s)) (data self)"
  shows "\<exists>batches. take_batches rnd lib self m generator_start
             = Some (Inr (batches, state_after rnd (length (data self)) (BATCH_SIZE * m)))
           \<and> length batches = m
           \<and> (\<forall>b<m. length (batches ! b) = BATCH_SIZE
                  \<and> map Inr (batches ! b)
                      = map (\<lambda>j. dataset_sample rnd lib self j (stream_index rnd (length (data self)) j))
                            [BATCH_SIZE * b..<BATCH_SIZE * b + BATCH_SIZE])"
proof -
  let ?n = "length (data self)"
  let ?st = "\<lambda>b. state_after rnd ?n (BATCH_SIZE * b)"
  let ?P = "\<lambda>b batch. length batch = BATCH_SIZE
                  \<and> map Inr batch
                      = map (\<lambda>j. dataset_sample rnd lib self j (stream_index rnd ?n j))
                            [BATCH_SIZE * b..<BATCH_SIZE * b + BATCH_SIZE]"
  have "\<exists>xs. iterate_next (batch_next rnd lib self) m (?st 0) = Some (Inr (xs, ?st (0 + m)))
          \<and> length xs = m \<and> (\<forall>b<m. ?P (0 + b) (xs ! b))"
  proof (rule iterate_next_run)
    fix b assume "b < m"
    show "\<exists>x. batch_next rnd lib self (?st (0 + b)) = Some (Inr (x, ?st (Suc (0 + b))))
              \<and> ?P (0 + b) x"
      using batch_after[OF assms, of "0 + b"] .
  qed
  then show ?thesis
    by (simp add: take_batches_def state_after_def)
qed

lemma fresh_epoch_batches:
  assumes "cv2_contract lib" and "rng_contract rnd"
    and "num_samples self = length (data self)"
    and "list_all (\<lambda>s. fits_int32 (snd s)) (data self)"
  shows "steps_per_epoch self = length (data self) div 32
         \<and> validation_steps self = length (data self) div 32
         \<and> (\<exists>batches.
               take_batches rnd lib self (length (data self) div 32) generator_start
                 = Some (Inr (batches,
                      state_after rnd (length (data self)) (32 * (length (data self) div 32))))
               \<and> length batches = length (data self) div 32
               \<and> (\<forall>b < length (data self) div 32.
                      length (batches ! b) = 32
                      \<and> map Inr (batches ! b)
                          = map (\<lambda>j. dataset_sample rnd lib self j
                                       (permutation rnd 0 (length (data self)) ! j))
                                [32 * b..<32 * b + 32]))
         \<and> passes (state_after rnd (length (data self)) (32 * (length (data self) div 32))) \<le> 1"
proof -
  let ?n = "length (data self)"
  let ?m = "?n div 32"
  have steps: "steps_per_epoch self = ?m" "validation_steps self = ?m"
    using assms(3) by (simp_all add: steps_per_epoch_def validation_steps_def BATCH_SIZE_def)
  have le: "32 * ?m \<le> ?n"
    by simp
  have pass: "passes (state_after rnd ?n (32 * ?m)) \<le> 1"
  proof (cases "32 * ?m = 0")
    case True
    then show ?thesis by (simp add: passes_state_after)
  next
    case False
    then have "32 * ?m - 1 < ?n"
      using le by linarith
    then have "(32 * ?m - 1) div ?n = 0"
      by simp
    then show ?thesis
      using False by (simp only: passes_state_after) simp
  qed
  have "\<exists>batches.
          take_batches rnd lib self ?m generator_start
            = Some (Inr (batches, state_after rnd ?n (32 * ?m)))
          \<and> length batches = ?m
          \<and> (\<forall>b < ?m. length (batches ! b) = 32
                 \<and> map Inr (batches ! b)
                     = map (\<lambda>j. dataset_sample rnd lib self j (permutation rnd 0 ?n ! j))
                           [32 * b..<32 * b + 32])"
  proof (cases "?n = 0")
    case True
    then show ?thesis
      by (simp add: take_batches_def state_after_def)
  next
    case False
    then have pos: "0 < ?n" by simp
    obtain batches where run: "take_batches rnd lib self ?m generator_start
             = Some (Inr (batches, state_after rnd ?n (BATCH_SIZE * ?m)))"
        and len: "length batches = ?m"
        and each: "\<forall>b<?m. length (batches ! b) = BATCH_SIZE
                  \<and> map Inr (batches ! b)
                      = map (\<lambda>j. dataset_sample rnd lib self j (stream_index rnd ?n j))
                            [BATCH_SIZE * b..<BATCH_SIZE * b + BATCH_SIZE]"
      using batches_after[OF assms(1,2) pos assms(4), of ?m] by blast
    have "\<forall>b < ?m. length (batches ! b) = 32
                 \<and> map Inr (batches ! b)
                     = map (\<lambda>j. dataset_sample rnd lib self j (permutation rnd 0 ?n ! j))
                           [32 * b..<32 * b + 32]"
    proof (intro allI impI)
      fix b assume b: "b < ?m"
      then have "32 * b + 32 \<le> 32 * ?m"
        by simp
      with le have bound: "32 * b + 32 \<le> ?n"
        by linarith
      have "map (\<lambda>j. dataset_sample rnd lib self j (stream_index rnd ?n j)) [32 * b..<32 * b + 32]
              = map (\<lambda>j. dataset_sample rnd lib self j (permutation rnd 0 ?n ! j))
                    [32 * b..<32 * b + 32]"
      proof (rule map_cong[OF refl])
        fix j assume "j \<in> set [32 * b..<32 * b + 32]"
        then have "j < ?n"
          using bound by simp
        then show "dataset_sample rnd lib self j (stream_index rnd ?n j)
                     = dataset_sample rnd lib self j (permutation rnd 0 ?n ! j)"
          by (simp only: first_pass_index)
      qed
      then show "length (batches ! b) = 32
                 \<and> map Inr (batches ! b)
                     = map (\<lambda>j. dataset_sample rnd lib self j (permutation rnd 0 ?n ! j))
                           [32 * b..<32 * b + 32]"
        using each b by (simp add: BATCH_SIZE_def)
    qed
    with run len show ?thesis
      by (simp add: BATCH_SIZE_def)
  qed
  with steps pass show ?thesis by blast
qed

lemma batches_from:
  assumes "cv2_contract lib" and "rng_contract rnd" and "0 < length (data self)"
    and "list_all (\<lambda>s. fits_int32 (snd s)) (data self)"
  shows "\<exists>batches. take_batches rnd lib self m (state_after rnd (length (data self)) (BATCH_SIZE * i))
             = Some (Inr (batches, state_after rnd (length (data self)) (BATCH_SIZE * (i + m))))
           \<and> length batches = m
           \<and> (\<forall>b<m. length (batches ! b) = BATCH_SIZE
                  \<and> map Inr (batches ! b)
                      = map (\<lambda>j. dataset_sample rnd lib self j (stream_index rnd (length (data self)) j))
                            [BATCH_SIZE * (i + b)..<BATCH_SIZE * (i + b) + BATCH_SIZE])"
proof -
  let ?n = "length (data self)"
  let ?st = "\<lambda>b. state_after rnd ?n (BATCH_SIZE * b)"
  let ?P = "\<lambda>b batch. length batch = BATCH_SIZE
                  \<and> map Inr batch
                      = map (\<lambda>j. dataset_sample rnd lib self j (stream_index rnd ?n j))
                            [BATCH_SIZE * b..<BATCH_SIZE * b + BATCH_SIZE]"
  have "\<exists>xs. iterate_next (batch_next rnd lib self) m (?st i) = Some (Inr (xs, ?st (i + m)))
          \<and> length xs = m \<and> (\<forall>b<m. ?P (i + b) (xs ! b))"
  proof (rule iterate_next_run)
    fix b assume "b < m"
    show "\<exists>x. batch_next rnd lib self (?st (i + b)) = Some (Inr (x, ?st (Suc (i + b))))
              \<and> ?P (i + b) x"
      using batch_after[OF assms, of "i + b"] .
  qed
  then show ?thesis
    unfolding take_batches_def .
qed

lemma epoch_from:
  assumes "cv2_contract lib" and "rng_contract rnd"
    and "list_all (\<lambda>s. fits_int32 (snd s)) (data self)"
  shows "\<exists>batches. take_batches rnd lib self (length (data self) div 32)
               (state_after rnd (length (data self)) (32 * (length (data self) div 32 * e)))
             = Some (Inr (batches,
                  state_after rnd (length (data self)) (32 * (length (data self) div 32 * Suc e))))
           \<and> length batches = length (data self) div 32
           \<and> (\<forall>b < length (data self) div 32.
                  length (batches ! b) = 32
                  \<and> map Inr (batches ! b)
                      = map (\<lambda>j. dataset_sample rnd lib self j (stream_index rnd (length (data self)) j))
                            [32 * (length (data self) div 32 * e + b)
                             ..<32 * (length (data self) div 32 * e + b) + 32])"
proof (cases "length (data self) = 0")
  case True
  then show ?thesis
    by (simp add: take_batches_def)
next
  case False
  then have pos: "0 < length (data self)" by simp
  have e: "length (data self) div 32 * e + length (data self) div 32
             = length (data self) div 32 * Suc e"
    by simp
  show ?thesis
    using batches_from[OF assms(1,2) pos assms(3),
            of "length (data self) div 32" "length (data self) div 32 * e"]
    unfolding BATCH_SIZE_def e .
qed

lemma fit_batches_run:
  assumes "cv2_contract lib" and "rng_contract rnd"
    and "list_all (\<lambda>s. fits_int32 (snd s)) (data self)"
  shows "\<exists>epochs. fit_batches rnd lib self (length (data self) div 32) n
             = Some (Inr (epochs,
                  state_after rnd (length (data self)) (32 * (length (data self) div 32 * n))))
           \<and> length epochs = n
           \<and> (\<forall>e<n. length (epochs ! e) = length (data self) div 32
                  \<and> (\<forall>b < length (data self) div 32.
                        length (epochs ! e ! b) = 32
                        \<and> map Inr (epochs ! e ! b)
                            = map (\<lambda>j. dataset_sample rnd lib self j
                                         (stream_index rnd (length (data self)) j))
                                  [32 * (length (data self) div 32 * e + b)
                                   ..<32 * (length (data self) div 32 * e + b) + 32]))"
proof -
  let ?n = "length (data self)"
  let ?m = "?n div 32"
  let ?st = "\<lambda>e. state_after rnd ?n (32 * (?m * e))"
  let ?P = "\<lambda>e batches. length batches = ?m
                  \<and> (\<forall>b < ?m. length (batches ! b) = 32
                        \<and> map Inr (batches ! b)
                            = map (\<lambda>j. dataset_sample rnd lib self j (stream_index rnd ?n j))
                                  [32 * (?m * e + b)..<32 * (?m * e + b) + 32])"
  have "\<exists>xs. iterate_next (take_batches rnd lib self ?m) n (?st 0) = Some (Inr (xs, ?st (0 + n)))
          \<and> length xs = n \<and> (\<forall>e<n. ?P (0 + e) (xs ! e))"
  proof (rule iterate_next_run)
    fix e assume "e < n"
    show "\<exists>x. take_batches rnd lib self ?m (?st (0 + e)) = Some (Inr (x, ?st (Suc (0 + e))))
              \<and> ?P (0 + e) x"
      using epoch_from[OF assms, of "0 + e"] by blast
  qed
  then show ?thesis
    by (simp add: fit_batches_def state_after_def)
qed

lemma aligned_epoch_index:
  assumes "32 dvd n" and "32 * (n div 32 * e) \<le> j" and "j < 32 * (n div 32 * Suc e)"
  shows "stream_index rnd n j = permutation rnd e n ! (j - n * e)"
proof -
  have n: "32 * (n div 32) = n"
    using assms(1) by simp
  have lo: "n * e \<le> j"
    using assms(2) n by (metis mult.assoc)
  have hi: "j < n * e + n"
    using assms(3) n by (metis mult.assoc mult_Suc_right add.commute)
  from lo obtain r where r: "j = n * e + r"
    using le_Suc_ex by blast
  with hi have "r < n" by simp
  with r have "j div n = e" "j mod n = r"
    by simp_all
  with r show ?thesis
    by (simp add: stream_index_def)
qed

text \<open>
  Claim C8 as stated (one full epoch yields \<open>N div 32\<close> complete batches whose samples all
  come from a single permutation, before the generator reshuffles) fails for the epochs
  after the first when 32 does not divide \<open>N\<close>. With \<open>N = 70\<close> the step count is 2 and the
  first epoch ends after 64 samples, with one permutation drawn. The first batch of the
  second epoch holds the samples at positions 64 to 95 of the generated sequence: six
  from the first permutation and twenty-six from the second, which the generator draws
  in the middle of that batch; with the permutations of \<open>example_rng\<close> the sample 69
  occurs in it twice.
\<close>

theorem second_epoch_spans_two_permutations:
  "steps_per_epoch large_dataset = 2
   \<and> map_option (map_sum id snd) (fit_batches example_rng example_cv2 large_dataset 2 1)
       = Some (Inr (state_after example_rng 70 64))
   \<and> passes (state_after example_rng 70 64) = 1
   \<and> map_option (map_sum id (\<lambda>r. map Inr (fst r)))
         (batch_next example_rng example_cv2 large_dataset (state_after example_rng 70 64))
       = Some (Inr (map (\<lambda>j. dataset_sample example_rng example_cv2 large_dataset j
                                (stream_index example_rng 70 j)) [64..<96]))
   \<and> map_option (map_sum id (\<lambda>r. passes (snd r)))
         (batch_next example_rng example_cv2 large_dataset (state_after example_rng 70 64))
       = Some (Inr 2)
   \<and> map (stream_index example_rng 70) [64..<96] = [64, 65, 66, 67, 68, 69,
          69, 68, 67, 66, 65, 64, 63, 62, 61, 60, 59, 58, 57, 56, 55, 54, 53,
          52, 51, 50, 49, 48, 47, 46, 45, 44]
   \<and> list_all (\<lambda>j. j div 70 = 0) [64..<70]
   \<and> list_all (\<lambda>j. j div 70 = 1) [70..<96]"
proof -
  have n: "length (data large_dataset) = 70" "num_samples large_dataset = 70"
    by (simp_all add: large_dataset_def)
  have pos: "0 < length (data large_dataset)"
    using n by simp
  have fit: "list_all (\<lambda>s. fits_int32 (snd s)) (data large_dataset)"
    by (auto simp: large_dataset_def list_all_iff fits_int32_def)
  have a: "steps_per_epoch large_dataset = 2"
    using n by (simp add: steps_per_epoch_def BATCH_SIZE_def)
  have b: "map_option (map_sum id snd) (fit_batches example_rng example_cv2 large_dataset 2 1)
       = Some (Inr (state_after example_rng 70 64))"
    using fit_batches_run[OF example_cv2_contract example_rng_contract fit, of 1] n by auto
  have c: "passes (state_after example_rng 70 64) = 1"
    by (simp add: passes_state_after)
  obtain batch where run: "batch_next example_rng example_cv2 large_dataset
               (state_after example_rng 70 (BATCH_SIZE * 2))
             = Some (Inr (batch, state_after example_rng 70 (BATCH_SIZE * Suc 2)))"
      and items: "map Inr batch
               = map (\<lambda>j. dataset_sample example_rng example_cv2 large_dataset j
                            (stream_index example_rng 70 j))
                     [BATCH_SIZE * 2..<BATCH_SIZE * 2 + BATCH_SIZE]"
    using batch_after[OF example_cv2_contract example_rng_contract pos fit, of 2] n by auto
  have run': "batch_next example_rng example_cv2 large_dataset (state_after example_rng 70 64)
             = Some (Inr (batch, state_after example_rng 70 96))"
    using run by (simp add: BATCH_SIZE_def)
  have items': "map Inr batch
               = map (\<lambda>j. dataset_sample example_rng example_cv2 large_dataset j
                            (stream_index example_rng 70 j)) [64..<96]"
    using items by (simp add: BATCH_SIZE_def)
  have d: "map_option (map_sum id (\<lambda>r. map Inr (fst r)))
         (batch_next example_rng example_cv2 large_dataset (state_after example_rng 70 64))
       = Some (Inr (map (\<lambda>j. dataset_sample example_rng example_cv2 large_dataset j
                                (stream_index example_rng 70 j)) [64..<96]))"
    by (simp add: run' items')
  have e: "map_option (map_sum id (\<lambda>r. passes (snd r)))
         (batch_next example_rng example_cv2 large_dataset (state_after example_rng 70 64))
       = Some (Inr 2)"
    by (simp add: run' passes_state_after)
  have f: "map (stream_index example_rng 70) [64..<96] = [64, 65, 66, 67, 68, 69,
          69, 68, 67, 66, 65, 64, 63, 62, 61, 60, 59, 58, 57, 56, 55, 54, 53,
          52, 51, 50, 49, 48, 47, 46, 45, 44]"
    by (simp add: stream_index_def example_rng_def upt_rec rev_nth)
  have g: "list_all (\<lambda>j. j div 70 = 0) [64..<70]"
    by (simp add: upt_rec)
  have h: "list_all (\<lambda>j. j div 70 = 1) [70..<96]"
    by (simp add: upt_rec)
  from a b c d e f g h show ?thesis by blast
qed

text \<open>
  Claim C8, amended: for a sample index of \<open>N\<close> samples and batch size 32,
  \<^verbatim>\<open>steps_per_epoch\<close> and \<^verbatim>\<open>validation_steps\<close> both equal \<open>N div 32\<close>. The epoch that starts
  with a fresh generator yields exactly \<open>N div 32\<close> complete batches, batch \<open>b\<close> holding the
  samples at positions \<open>32 b, ..., 32 b + 31\<close> of the first permutation, and at most that
  one permutation has been drawn when the epoch is complete. Every epoch of a training
  run yields exactly \<open>N div 32\<close> complete batches of 32 consecutive samples of the
  generated sequence, epoch \<open>e\<close> starting where epoch \<open>e - 1\<close> ended; its samples all come
  from a single permutation (permutation number \<open>e\<close>) when 32 divides \<open>N\<close>. The labels are
  assumed to fit the int32 of the output signature, as the labels of the label domain do.
\<close>

theorem epoch_batches:
  assumes "cv2_contract lib" and "rng_contract rnd"
    and "num_samples self = length (data self)"
    and "list_all (\<lambda>s. fits_int32 (snd s)) (data self)"
  shows "steps_per_epoch self = length (data self) div 32
         \<and> validation_steps self = length (data self) div 32
         \<and> (\<exists>batches.
               take_batches rnd lib self (length (data self) div 32) generator_start
                 = Some (Inr (batches,
                      state_after rnd (length (data self)) (32 * (length (data self) div 32))))
               \<and> length batches = length (data self) div 32
               \<and> (\<forall>b < length (data self) div 32.
                      length (batches ! b) = 32
                      \<and> map Inr (batches ! b)
                          = map (\<lambda>j. dataset_sample rnd lib self j
                                       (permutation rnd 0 (length (data self)) ! j))
                                [32 * b..<32 * b + 32]))
         \<and> passes (state_after rnd (length (data self)) (32 * (length (data self) div 32))) \<le> 1
         \<and> (\<forall>n. \<exists>epochs.
               fit_batches rnd lib self (length (data self) div 32) n
                 = Some (Inr (epochs,
                      state_after rnd (length (data self)) (32 * (length (data self) div 32 * n))))
               \<and> length epochs = n
               \<and> (\<forall>e<n. length (epochs ! e) = length (data self) div 32
                      \<and> (\<forall>b < length (data self) div 32.
                            length (epochs ! e ! b) = 32
                            \<and> map Inr (epochs ! e ! b)
                                = map (\<lambda>j. dataset_sample rnd lib self j
                                             (stream_index rnd (length (data self)) j))
                                      [32 * (length (data self) div 32 * e + b)
                                       ..<32 * (length (data self) div 32 * e + b) + 32])))
         \<and> (32 dvd length (data self) \<longrightarrow>
               (\<forall>e j. 32 * (length (data self) div 32 * e) \<le> j
                      \<and> j < 32 * (length (data self) div 32 * Suc e)
                      \<longrightarrow> stream_index rnd (length (data self)) j
                            = permutation rnd e (length (data self)) ! (j - length (data self) * e)))"
proof -
  have first:
    "steps_per_epoch self = length (data self) div 32
         \<and> validation_steps self = length (data self) div 32
         \<and> (\<exists>batches.
               take_batches rnd lib self (length (data self) div 32) generator_start
                 = Some (Inr (batches,
                      state_after rnd (length (data self)) (32 * (length (data self) div 32))))
               \<and> length batches = length (data self) div 32
               \<and> (\<forall>b < length (data self) div 32.
                      length (batches ! b) = 32
                      \<and> map Inr (batches ! b)
                          = map (\<lambda>j. dataset_sample rnd lib self j
                                       (permutation rnd 0 (length (data self)) ! j))
                                [32 * b..<32 * b + 32]))
         \<and> passes (state_after rnd (length (data self)) (32 * (length (data self) div 32))) \<le> 1"
    using assms by (rule fresh_epoch_batches)
  have later: "\<forall>n. \<exists>epochs.
               fit_batches rnd lib self (length (data self) div 32) n
                 = Some (Inr (epochs,
                      state_after rnd (length (data self)) (32 * (length (data self) div 32 * n))))
               \<and> length epochs = n
               \<and> (\<forall>e<n. length (epochs ! e) = length (data self) div 32
                      \<and> (\<forall>b < length (data self) div 32.
                            length (epochs ! e ! b) = 32
                            \<and> map Inr (epochs ! e ! b)
                                = map (\<lambda>j. dataset_sample rnd lib self j
                                             (stream_index rnd (length (data self)) j))
                                      [32 * (length (data self) div 32 * e + b)
                                       ..<32 * (length (data self) div 32 * e + b) + 32]))"
    using fit_batches_run[OF assms(1,2,4)] by (rule allI)
  have aligned: "32 dvd length (data self) \<longrightarrow>
               (\<forall>e j. 32 * (length (data self) div 32 * e) \<le> j
                      \<and> j < 32 * (length (data self) div 32 * Suc e)
                      \<longrightarrow> stream_index rnd (length (data self)) j
                            = permutation rnd e (length (data self)) ! (j - length (data self) * e))"
    using aligned_epoch_index[of "length (data self)" _ _ rnd] by blast
  from first later aligned show ?thesis
    by (elim conjE, intro conjI) assumption+
qed

theorem epoch_batches_witness:
  "cv2_contract example_cv2 \<and> rng_contract example_rng
   \<and> num_samples large_dataset = length (data large_dataset)
   \<and> list_all (\<lambda>s. fits_int32 (snd s)) (data large_dataset)
   \<and> length (data large_dataset) = 70
   \<and> steps_per_epoch large_dataset = 2 \<and> validation_steps large_dataset = 2
   \<and> (\<exists>batches. take_batches example_rng example_cv2 large_dataset 2 generator_start
                    = Some (Inr (batches, state_after example_rng 70 64))
               \<and> length batches = 2
               \<and> length (batches ! 0) = 32 \<and> length (batches ! 1) = 32)
   \<and> passes (state_after example_rng 70 64) = 1
   \<and> (\<exists>epochs. fit_batches example_rng example_cv2 large_dataset 2 3
                    = Some (Inr (epochs, state_after example_rng 70 192))
               \<and> length epochs = 3)
   \<and> num_samples aligned_dataset = length (data aligned_dataset)
   \<and> list_all (\<lambda>s. fits_int32 (snd s)) (data aligned_dataset)
   \<and> length (data aligned_dataset) = 64 \<and> 32 dvd length (data aligned_dataset)
   \<and> stream_index example_rng 64 100 = permutation example_rng 1 64 ! 36"
proof -
  have n: "length (data large_dataset) = 70" "num_samples large_dataset = length (data large_dataset)"
    by (simp_all add: large_dataset_def)
  have fit: "list_all (\<lambda>s. fits_int32 (snd s)) (data large_dataset)"
    by (auto simp: large_dataset_def list_all_iff fits_int32_def)
  have p: "passes (state_after example_rng 70 64) = 1"
    by (simp add: passes_state_after)
  have n': "length (data aligned_dataset) = 64"
      "num_samples aligned_dataset = length (data aligned_dataset)"
    by (simp_all add: aligned_dataset_def)
  have fit': "list_all (\<lambda>s. fits_int32 (snd s)) (data aligned_dataset)"
    by (auto simp: aligned_dataset_def list_all_iff fits_int32_def)
  note large = epoch_batches[OF example_cv2_contract example_rng_contract n(2) fit]
  note small = epoch_batches[OF example_cv2_contract example_rng_contract n'(2) fit']
  have l1: "\<exists>batches. take_batches example_rng example_cv2 large_dataset 2 generator_start
                    = Some (Inr (batches, state_after example_rng 70 64))
               \<and> length batches = 2
               \<and> length (batches ! 0) = 32 \<and> length (batches ! 1) = 32"
    using large n by auto
  have l2: "\<exists>epochs. fit_batches example_rng example_cv2 large_dataset 2 3
                    = Some (Inr (epochs, state_after example_rng 70 192))
               \<and> length epochs = 3"
  proof -
    from large obtain epochs where
      "fit_batches example_rng example_cv2 large_dataset (length (data large_dataset) div 32) 3
         = Some (Inr (epochs, state_after example_rng (length (data large_dataset))
                                (32 * (length (data large_dataset) div 32 * 3))))"
      "length epochs = 3"
      by blast
    then show ?thesis using n by simp
  qed
  have l3: "steps_per_epoch large_dataset = 2" "validation_steps large_dataset = 2"
    using large n by simp_all
  have s1: "stream_index example_rng 64 100 = permutation example_rng 1 64 ! 36"
  proof -
    from small n' have "\<forall>e j. 32 * (64 div 32 * e) \<le> j \<and> j < 32 * (64 div 32 * Suc e)
              \<longrightarrow> stream_index example_rng 64 j = permutation example_rng e 64 ! (j - 64 * e)"
      by simp
    then have "32 * (64 div 32 * 1) \<le> (100::nat) \<and> (100::nat) < 32 * (64 div 32 * Suc 1)
              \<longrightarrow> stream_index example_rng 64 100 = permutation example_rng 1 64 ! (100 - 64 * 1)"
      by blast
    then show ?thesis by simp
  qed
  show ?thesis
    using example_cv2_contract example_rng_contract n fit p l1 l2 l3 n' fit' s1
    by simp
qed

section \<open>Properties of the training driver and the exporter\<close>

text \<open>
  Claim C3 as stated (the callback halves the learning rate after a plateau of 2
  epochs) fails: the callback is built with \<^verbatim>\<open>factor=0.2\<close>. From the initial learning rate
  0.001, the validation losses 1, 1, 1 (no improvement in the second and third epoch)
  leave the learning rate at 0.0002, and half of 0.001 is 0.0005.
\<close>

theorem reduce_lr_counterexample:
  "lr (foldl (reduce_lr_on_epoch_end main_reduce_lr) main_initial_lr_state [1, 1, 1]) = 2 / 10000
   \<and> lr main_initial_lr_state * (1 / 2) = 5 / 10000"
  by (simp add: reduce_lr_on_epoch_end_def main_reduce_lr_def main_initial_lr_state_def
        monitor_op_def Let_def)

text \<open>
  Claim C3, amended: when the validation loss has not improved for 2 consecutive epochs,
  the learning-rate callback of the training driver multiplies the learning rate by 0.2
  (after the first of the two epochs the rate is unchanged).
\<close>

theorem reduce_lr_multiplies_by_factor:
  assumes "wait s = 0" and "cooldown_counter s = 0" and "0 < lr s"
    and "\<not> monitor_op main_reduce_lr c1 (best s)"
    and "\<not> monitor_op main_reduce_lr c2 (best s)"
  shows "lr (reduce_lr_on_epoch_end main_reduce_lr s c1) = lr s
         \<and> lr (reduce_lr_on_epoch_end main_reduce_lr
                 (reduce_lr_on_epoch_end main_reduce_lr s c1) c2) = lr s * (2 / 10)"
  using assms
  by (simp add: reduce_lr_on_epoch_end_def main_reduce_lr_def monitor_op_def Let_def max_def)

theorem reduce_lr_multiplies_by_factor_witness:
  "lr (reduce_lr_on_epoch_end main_reduce_lr
         \<lparr>best = Some 1, wait = 0, cooldown_counter = 0, lr = 1 / 1000\<rparr> 1) = 1 / 1000
   \<and> lr (reduce_lr_on_epoch_end main_reduce_lr
           (reduce_lr_on_epoch_end main_reduce_lr
              \<lparr>best = Some 1, wait = 0, cooldown_counter = 0, lr = 1 / 1000\<rparr> 1) 1)
       = 2 / 10000"
  using reduce_lr_multiplies_by_factor[of
      "\<lparr>best = Some 1, wait = 0, cooldown_counter = 0, lr = 1 / 1000\<rparr>" 1 1]
  by (simp add: monitor_op_def main_reduce_lr_def)

text \<open>
  Claim C10: the exporter's output does not depend on its dataset argument. For any two
  values of the argument, with the same converter, model, file name and files, the log
  and the resulting files are equal, and the file written holds the conversion of the
  model under the settings "default optimizations, float16".
\<close>

theorem convert_to_tflite_ignores_dataset:
  "convert_to_tflite tflite_convert model dataset1 filename files
     = convert_to_tflite tflite_convert model dataset2 filename files
   \<and> snd (convert_to_tflite tflite_convert model dataset1 filename files) filename
       = Some (tflite_convert \<lparr>optimizations = [DEFAULT], supported_types = [Float16]\<rparr> model)
   \<and> snd (convert_to_tflite tflite_convert model dataset2 filename files) filename
       = Some (tflite_convert \<lparr>optimizations = [DEFAULT], supported_types = [Float16]\<rparr> model)"
  by (simp add: convert_to_tflite_def)

end
